theory Spec2Isabelle
  imports Complex_Main
begin

section \<open>JavaScript values used by the recipe controller\<close>

text \<open>
  The controller (backend/src/controllers/recipeController.js) reads \<open>req.query\<close>, a
  mapping from parameter names to values produced by the query-string parser: a string,
  an array or a nested object. A parameter that is absent reads as \<open>undefined\<close>, which
  the model writes \<open>None\<close>. A character is one code unit below 256.

  A JavaScript number is an IEEE double: a finite double, written as the rational it
  equals (the two zeros are one value), \<open>NaN\<close>, or one of the two infinities.
\<close>

datatype jsnum = Num rat | NaN | PosInfinity | NegInfinity

datatype qval = QStr string | QArr "qval list" | QObj "(string \<times> qval) list"

type_synonym query = "string \<rightharpoonup> qval"

text \<open>
  What a \<open>try\<close> block of the controller can catch: a TypeError raised by the
  controller's own code, and the two failures of the store's expression evaluation that
  the calories filter can meet.
\<close>

datatype error = TypeError | ConversionFailure | InvalidArgument

text \<open>Truthiness of a query value: only the empty string (and \<open>undefined\<close>) is falsy.\<close>

fun truthy :: "qval option \<Rightarrow> bool" where
  "truthy None = False"
| "truthy (Some (QStr s)) = (s \<noteq> [])"
| "truthy (Some (QArr xs)) = True"
| "truthy (Some (QObj kvs)) = True"

text \<open>\<open>Array.prototype.join\<close> with the default separator, on strings.\<close>

fun join_comma :: "string list \<Rightarrow> string" where
  "join_comma [] = []"
| "join_comma [s] = s"
| "join_comma (s # t # ss) = s @ '','' @ join_comma (t # ss)"

text \<open>\<open>ToString\<close>, as \<open>parseInt\<close> applies it to its argument.\<close>

fun to_string :: "qval \<Rightarrow> string" where
  "to_string (QStr s) = s"
| "to_string (QArr xs) = join_comma (map to_string xs)"
| "to_string (QObj kvs) = ''[object Object]''"

definition to_string_opt :: "qval option \<Rightarrow> string" where
  "to_string_opt v = (case v of None \<Rightarrow> ''undefined'' | Some x \<Rightarrow> to_string x)"

subsection \<open>Character classes\<close>

text \<open>\<open>\s\<close> of a regular expression and the white space \<open>parseInt\<close> skips: tab, line feed,
  vertical tab, form feed, carriage return, space, no-break space.\<close>

definition is_space :: "char \<Rightarrow> bool" where
  "is_space c = (c \<in> set [CHR 0x09, CHR 0x0A, CHR 0x0B, CHR 0x0C, CHR 0x0D, CHR 0x20, CHR 0xA0])"

text \<open>\<open>\d\<close>: the ten ASCII digits.\<close>

definition is_digit :: "char \<Rightarrow> bool" where
  "is_digit c = (c \<in> set ''0123456789'')"

definition digit_val :: "char \<Rightarrow> nat" where
  "digit_val c = of_char c - 48"

definition is_hex_digit :: "char \<Rightarrow> bool" where
  "is_hex_digit c = (c \<in> set ''0123456789abcdefABCDEF'')"

definition hex_val :: "char \<Rightarrow> nat" where
  "hex_val c = (if is_digit c then of_char c - 48
                else if c \<in> set ''abcdef'' then of_char c - 87
                else of_char c - 55)"

text \<open>The value of a digit string, most significant digit first.\<close>

definition digits_val :: "string \<Rightarrow> nat" where
  "digits_val ds = foldl (\<lambda>a c. 10 * a + digit_val c) 0 ds"

definition hex_digits_val :: "string \<Rightarrow> nat" where
  "hex_digits_val ds = foldl (\<lambda>a c. 16 * a + hex_val c) 0 ds"

subsection \<open>Numbers are doubles\<close>

text \<open>
  The number a numeric text denotes is the IEEE 754 binary64 value nearest to its
  mathematical value, ties going to the even significand, and \<open>Infinity\<close> past the
  largest finite double. \<open>to_double\<close> is that rounding on a non-negative rational:
  \<open>bits\<close> is the length of a natural number in binary, \<open>floor_log2 q\<close> the exponent of
  the power of two at or below \<open>q\<close>, so that the significand of \<open>q\<close> has 53 bits at the
  exponent \<open>floor_log2 q - 52\<close>, and no exponent is below \<open>-1074\<close>, that of the
  subnormal numbers.
\<close>

fun bits :: "nat \<Rightarrow> nat" where
  "bits n = (if n = 0 then 0 else Suc (bits (n div 2)))"

declare bits.simps [simp del]

definition pow2 :: "int \<Rightarrow> rat" where
  "pow2 e = (if 0 \<le> e then 2 ^ nat e else 1 / 2 ^ nat (- e))"

definition floor_log2 :: "rat \<Rightarrow> int" where
  "floor_log2 q = (if 1 \<le> q then int (bits (nat \<lfloor>q\<rfloor>)) - 1
                   else - int (bits (nat (\<lceil>1 / q\<rceil> - 1))))"

definition round_half_even :: "rat \<Rightarrow> int" where
  "round_half_even x =
     (let f = \<lfloor>x\<rfloor>; d = x - of_int f
      in if d < 1 / 2 then f else if 1 / 2 < d then f + 1 else if even f then f else f + 1)"

definition to_double :: "rat \<Rightarrow> jsnum" where
  "to_double q =
     (if q \<le> 0 then Num 0
      else let e = max (floor_log2 q - 52) (- 1074);
               v = of_int (round_half_even (q / pow2 e)) * pow2 e
           in if 2 ^ 1024 \<le> v then PosInfinity else Num v)"

text \<open>Unary minus on numbers.\<close>

definition negate :: "jsnum \<Rightarrow> jsnum" where
  "negate x = (case x of Num r \<Rightarrow> Num (- r) | NaN \<Rightarrow> NaN
               | PosInfinity \<Rightarrow> NegInfinity | NegInfinity \<Rightarrow> PosInfinity)"

subsection \<open>parseInt and parseFloat\<close>

text \<open>
  \<open>parseInt(s)\<close> with no radix: skip leading white space, read an optional sign, take
  radix 16 after a \<open>0x\<close> or \<open>0X\<close> prefix and radix 10 otherwise, read the longest run
  of digits of that radix, and answer \<open>NaN\<close> when the run is empty; otherwise the
  double nearest to the integer read, with the sign.
\<close>

definition parseInt :: "string \<Rightarrow> jsnum" where
  "parseInt inputString =
     (let S = dropWhile is_space inputString;
          sign = (case S of c # _ \<Rightarrow> if c = CHR ''-'' then (-1::int) else 1 | [] \<Rightarrow> 1);
          S1 = (case S of c # r \<Rightarrow> if c = CHR ''+'' \<or> c = CHR ''-'' then r else S | [] \<Rightarrow> S);
          hex = (take 2 S1 = ''0x'' \<or> take 2 S1 = ''0X'');
          S2 = (if hex then drop 2 S1 else S1);
          Z = (if hex then takeWhile is_hex_digit S2 else takeWhile is_digit S2)
      in if Z = [] then NaN
         else let number = to_double (of_nat (if hex then hex_digits_val Z else digits_val Z))
              in if sign = - 1 then negate number else number)"

text \<open>
  \<open>parseFloat\<close> is called on capture group 2 only, an unsigned decimal literal. The model
  reads the integer digits and, after a point followed by a digit, the fraction digits,
  and answers the double nearest to the decimal value read; without a leading digit it
  answers \<open>NaN\<close>. Signs, exponents and \<open>Infinity\<close>, which the call site cannot pass, are
  not read.
\<close>

definition parseFloat :: "string \<Rightarrow> jsnum" where
  "parseFloat s =
     (let ip = takeWhile is_digit s;
          r = dropWhile is_digit s;
          fp = (case r of c # f \<Rightarrow> if c = CHR ''.'' then takeWhile is_digit f else [] | [] \<Rightarrow> [])
      in if ip = [] then NaN
         else to_double (of_nat (digits_val ip) + of_nat (digits_val fp) / 10 ^ length fp))"

text \<open>\<open>x || d\<close> on numbers: \<open>NaN\<close> and zero are falsy.\<close>

definition or_default :: "jsnum \<Rightarrow> jsnum \<Rightarrow> jsnum" where
  "or_default x d = (if x = NaN \<or> x = Num 0 then d else x)"

section \<open>The numeric filter parser\<close>

text \<open>
  \<open>filterStr.match(/^(>=|<=|=|>|<)?\s*(\d+(\.\d+)?)$/)\<close>. A match answers capture
  groups 1 and 2; group 1 is \<open>undefined\<close> (\<open>None\<close>) when the operator is left out.
  \<open>match_number\<close> is \<open>(\d+(\.\d+)?)$\<close>, \<open>match_tail\<close> is \<open>\s*(\d+(\.\d+)?)$\<close>, and
  \<open>match_alts\<close> tries the alternatives of group 1 from left to right, then the empty
  option, as the backtracking matcher does.
\<close>

definition match_number :: "string \<Rightarrow> bool" where
  "match_number t =
     (takeWhile is_digit t \<noteq> [] \<and>
      (case dropWhile is_digit t of
         [] \<Rightarrow> True
       | c # f \<Rightarrow> c = CHR ''.'' \<and> f \<noteq> [] \<and> list_all is_digit f))"

definition match_tail :: "string \<Rightarrow> string option" where
  "match_tail s = (let t = dropWhile is_space s in if match_number t then Some t else None)"

fun match_alts :: "string list \<Rightarrow> string \<Rightarrow> (string option \<times> string) option" where
  "match_alts [] s = (case match_tail s of None \<Rightarrow> None | Some g2 \<Rightarrow> Some (None, g2))"
| "match_alts (alt # alts) s =
     (case (if take (length alt) s = alt then match_tail (drop (length alt) s) else None) of
        Some g2 \<Rightarrow> Some (Some alt, g2)
      | None \<Rightarrow> match_alts alts s)"

definition operators :: "string list" where
  "operators = [''>='', ''<='', ''='', ''>'', ''<'']"

definition regex_match :: "string \<Rightarrow> (string option \<times> string) option" where
  "regex_match s = match_alts operators s"

text \<open>The object \<open>{ $gt: val }\<close> and its siblings: one operator key and its threshold.\<close>

datatype cmp = Gt | Lt | Gte | Lte | Eq

datatype pred = Pred cmp jsnum

text \<open>
  \<open>parseNumericFilter\<close>. The argument \<open>None\<close> stands for \<open>undefined\<close> and for \<open>null\<close>.
  A falsy argument answers \<open>null\<close>. An array or an object is truthy and has no \<open>match\<close>
  method, so the call raises a TypeError.
\<close>

definition parseNumericFilter :: "qval option \<Rightarrow> error + pred option" where
  "parseNumericFilter filterStr =
     (if \<not> truthy filterStr then Inr None
      else case filterStr of
        Some (QStr s) \<Rightarrow>
          (case regex_match s of
             None \<Rightarrow> Inr None
           | Some (g1, g2) \<Rightarrow>
               (let op = (case g1 of Some x \<Rightarrow> x | None \<Rightarrow> ''='');
                    val = parseFloat g2
                in Inr (Some (if op = ''>'' then Pred Gt val
                              else if op = ''<'' then Pred Lt val
                              else if op = ''>='' then Pred Gte val
                              else if op = ''<='' then Pred Lte val
                              else Pred Eq val))))
      | _ \<Rightarrow> Inl TypeError)"

section \<open>The query built by getRecipes and searchRecipes\<close>

text \<open>\<open>{ $regex: v, $options: "i" }\<close>: the pattern and the options.\<close>

datatype title_filter = Regex qval string

text \<open>The aggregation expression placed under \<open>$expr\<close>.\<close>

datatype expr =
    FieldPath string
  | StrLit string
  | NumLit jsnum
  | Split expr expr
  | ArrayElemAt expr expr
  | Trim expr
  | ToDouble expr
  | Compare cmp expr expr

record filter =
  title_f :: "title_filter option"
  cuisine_f :: "qval option"
  rating_f :: "pred option"
  total_time_f :: "pred option"
  expr_f :: "expr option"

definition empty_filter :: filter where
  "empty_filter = \<lparr>title_f = None, cuisine_f = None, rating_f = None,
                    total_time_f = None, expr_f = None\<rparr>"

record query_spec =
  page :: jsnum
  limit :: jsnum
  sortBy :: "(string \<times> int) list"
  filter_of :: filter

text \<open>\<open>String.prototype.split\<close> with a one-character separator.\<close>

fun split_on :: "char \<Rightarrow> string \<Rightarrow> string list" where
  "split_on d [] = [[]]"
| "split_on d (c # cs) =
     (if c = d then [] # split_on d cs
      else (case split_on d cs of p # ps \<Rightarrow> (c # p) # ps | [] \<Rightarrow> [[c]]))"

fun nth_opt :: "'a list \<Rightarrow> nat \<Rightarrow> 'a option" where
  "nth_opt [] n = None"
| "nth_opt (x # xs) 0 = Some x"
| "nth_opt (x # xs) (Suc n) = nth_opt xs n"

text \<open>
  \<open>sortBy[field] = dir\<close> on the fresh object \<open>{}\<close>. Assigning a number to the key
  \<open>__proto__\<close> runs the prototype setter, which ignores a value that is not an object,
  so the object stays empty.
\<close>

definition set_sort :: "string \<Rightarrow> int \<Rightarrow> (string \<times> int) list" where
  "set_sort field dir = (if field = ''__proto__'' then [] else [(field, dir)])"

text \<open>Lines 122 to 131 of the controller. \<open>split\<close> is a method of strings only.\<close>

definition build_sort :: "query \<Rightarrow> error + (string \<times> int) list" where
  "build_sort q =
     (if truthy (q ''sort'') then
        (case q ''sort'' of
           Some (QStr s) \<Rightarrow>
             (let parts = split_on CHR '':'' s;
                  field = (case nth_opt parts 0 of Some f \<Rightarrow> f | None \<Rightarrow> ''undefined'');
                  dir = (if nth_opt parts 1 = Some ''asc'' then 1 else -1)
              in Inr (set_sort field dir))
         | _ \<Rightarrow> Inl TypeError)
      else Inr [(''rating'', -1)])"

text \<open>A raised exception leaves the \<open>try\<close> block: the rest of the block is skipped.\<close>

definition bind :: "error + 'a \<Rightarrow> ('a \<Rightarrow> error + 'b) \<Rightarrow> error + 'b" where
  "bind m k = (case m of Inl e \<Rightarrow> Inl e | Inr x \<Rightarrow> k x)"

text \<open>
  Lines 134 to 177 of \<open>getRecipes\<close>: the filter object. The key \<open>$expr\<close> holds
  \<open>{ [operator]: [{ $toDouble: { $trim: { input: { $arrayElemAt:
  [{ $split: ["$nutrients.calories", " "] }, 0] } } } }, value] }\<close>.
\<close>

definition getRecipes_filter :: "query \<Rightarrow> error + filter" where
  "getRecipes_filter q =
     (let f0 = empty_filter;
          f1 = (case q ''title'' of
                  Some v \<Rightarrow> if truthy (Some v) then f0\<lparr>title_f := Some (Regex v ''i'')\<rparr> else f0
                | None \<Rightarrow> f0);
          f2 = (case q ''cuisine'' of
                  Some v \<Rightarrow> if truthy (Some v) then f1\<lparr>cuisine_f := Some v\<rparr> else f1
                | None \<Rightarrow> f1)
      in bind (if truthy (q ''rating'')
               then bind (parseNumericFilter (q ''rating''))
                      (\<lambda>parsed. Inr (case parsed of Some p \<Rightarrow> f2\<lparr>rating_f := Some p\<rparr>
                                                 | None \<Rightarrow> f2))
               else Inr f2)
        (\<lambda>f3. bind (if truthy (q ''total_time'')
                    then bind (parseNumericFilter (q ''total_time''))
                           (\<lambda>parsed. Inr (case parsed of Some p \<Rightarrow> f3\<lparr>total_time_f := Some p\<rparr>
                                                      | None \<Rightarrow> f3))
                    else Inr f3)
        (\<lambda>f4. if truthy (q ''calories'')
               then bind (parseNumericFilter (q ''calories''))
                      (\<lambda>parsed. Inr (case parsed of
                           Some (Pred operator val) \<Rightarrow>
                             f4\<lparr>expr_f := Some (Compare operator
                                   (ToDouble (Trim (ArrayElemAt
                                      (Split (FieldPath ''nutrients.calories'') (StrLit '' ''))
                                      (NumLit (Num 0)))))
                                   (NumLit val))\<rparr>
                         | None \<Rightarrow> f4))
               else Inr f4)))"

text \<open>
  Lines 119 to 177 of \<open>getRecipes\<close>: page, limit, sort and filter, in the order the
  source computes them, up to the calls of the store.
\<close>

definition getRecipes_build :: "query \<Rightarrow> error + query_spec" where
  "getRecipes_build q =
     (let pg = or_default (parseInt (to_string_opt (q ''page''))) (Num 1);
          lim = or_default (parseInt (to_string_opt (q ''limit''))) (Num 10)
      in bind (build_sort q)
        (\<lambda>sb. bind (getRecipes_filter q)
        (\<lambda>f. Inr \<lparr>page = pg, limit = lim, sortBy = sb, filter_of = f\<rparr>)))"

text \<open>Lines 263 to 292 of \<open>searchRecipes\<close>: the filter object, built from \<open>q = req.query\<close>.\<close>

definition searchRecipes_filter :: "query \<Rightarrow> error + filter" where
  "searchRecipes_filter q =
     (let f0 = empty_filter;
          f1 = (case q ''title'' of
                  Some v \<Rightarrow> if truthy (Some v) then f0\<lparr>title_f := Some (Regex v ''i'')\<rparr> else f0
                | None \<Rightarrow> f0);
          f2 = (case q ''cuisine'' of
                  Some v \<Rightarrow> if truthy (Some v) then f1\<lparr>cuisine_f := Some v\<rparr> else f1
                | None \<Rightarrow> f1)
      in bind (if truthy (q ''rating'')
               then bind (parseNumericFilter (q ''rating''))
                      (\<lambda>parsed. Inr (case parsed of Some p \<Rightarrow> f2\<lparr>rating_f := Some p\<rparr>
                                                 | None \<Rightarrow> f2))
               else Inr f2)
        (\<lambda>f3. bind (if truthy (q ''total_time'')
                    then bind (parseNumericFilter (q ''total_time''))
                           (\<lambda>parsed. Inr (case parsed of Some p \<Rightarrow> f3\<lparr>total_time_f := Some p\<rparr>
                                                      | None \<Rightarrow> f3))
                    else Inr f3)
        (\<lambda>f4. if truthy (q ''calories'')
               then bind (parseNumericFilter (q ''calories''))
                      (\<lambda>parsed. Inr (case parsed of
                           Some (Pred operator val) \<Rightarrow>
                             f4\<lparr>expr_f := Some (Compare operator
                                   (ToDouble (Trim (ArrayElemAt
                                      (Split (FieldPath ''nutrients.calories'') (StrLit '' ''))
                                      (NumLit (Num 0)))))
                                   (NumLit val))\<rparr>
                         | None \<Rightarrow> f4))
               else Inr f4)))"

section \<open>Normalising the numeric fields of a recipe\<close>

text \<open>
  A recipe read from JSON or from a request body is an object; a field that is absent
  reads as \<open>undefined\<close> (\<open>None\<close>).
\<close>

datatype json = JNull | JBool bool | JNum jsnum | JStr string
  | JArr "json list" | JObj "(string \<times> json) list"

type_synonym recipe = "string \<rightharpoonup> json"

text \<open>
  \<open>Number(v)\<close>. On \<open>undefined\<close>, \<open>null\<close>, a boolean and a number the result is fixed by the
  language. On a string, an array or an object the conversion goes through the value's
  primitive form and the numeric-literal grammar; that part is the parameter \<open>conv\<close>,
  which may raise (an object whose \<open>valueOf\<close> and \<open>toString\<close> are not callable).
\<close>

definition to_number :: "(json \<Rightarrow> error + jsnum) \<Rightarrow> json option \<Rightarrow> error + jsnum" where
  "to_number conv v =
     (case v of
        None \<Rightarrow> Inr NaN
      | Some JNull \<Rightarrow> Inr (Num 0)
      | Some (JBool b) \<Rightarrow> Inr (Num (if b then 1 else 0))
      | Some (JNum n) \<Rightarrow> Inr n
      | Some x \<Rightarrow> conv x)"

definition numeric_fields :: "string list" where
  "numeric_fields = [''rating'', ''prep_time'', ''cook_time'', ''total_time'']"

text \<open>\<open>fields.forEach(step)\<close> on an object that the steps update; a raise ends the loop.\<close>

fun for_each :: "(string \<Rightarrow> recipe \<Rightarrow> error + recipe) \<Rightarrow> string list \<Rightarrow> recipe \<Rightarrow> error + recipe" where
  "for_each step [] r = Inr r"
| "for_each step (f # fs) r = bind (step f r) (for_each step fs)"

text \<open>The body of the loop in \<open>loadRecipes\<close> (utils/parser.js, lines 17 to 21).\<close>

definition loadRecipes_field :: "(json \<Rightarrow> error + jsnum) \<Rightarrow> string \<Rightarrow> recipe \<Rightarrow> error + recipe" where
  "loadRecipes_field conv f copy =
     (if copy f = Some (JStr ''NaN'') \<or> copy f = None \<or> copy f = Some JNull
      then Inr (copy(f \<mapsto> JNull))
      else bind (to_number conv (copy f))
             (\<lambda>n. if n = NaN then Inr (copy(f \<mapsto> JNull))
                  else bind (to_number conv (copy f)) (\<lambda>m. Inr (copy(f \<mapsto> JNum m)))))"

text \<open>\<open>loadRecipes\<close> after the file is read and parsed: the map over the records.\<close>

fun map_result :: "('a \<Rightarrow> error + 'b) \<Rightarrow> 'a list \<Rightarrow> error + 'b list" where
  "map_result g [] = Inr []"
| "map_result g (x # xs) = bind (g x) (\<lambda>y. bind (map_result g xs) (\<lambda>ys. Inr (y # ys)))"

definition loadRecipes :: "(json \<Rightarrow> error + jsnum) \<Rightarrow> recipe list \<Rightarrow> error + recipe list" where
  "loadRecipes conv recipes = map_result (for_each (loadRecipes_field conv) numeric_fields) recipes"

text \<open>The body of the loop in \<open>addRecipe\<close> (lines 215 to 219).\<close>

definition addRecipe_field :: "(json \<Rightarrow> error + jsnum) \<Rightarrow> string \<Rightarrow> recipe \<Rightarrow> error + recipe" where
  "addRecipe_field conv f payload =
     (if payload f = Some (JStr ''NaN'') \<or> payload f = Some (JStr [])
      then Inr (payload(f \<mapsto> JNull))
      else bind (to_number conv (payload f))
             (\<lambda>n. if n = NaN then Inr (payload(f \<mapsto> JNull))
                  else if payload f \<noteq> None \<and> payload f \<noteq> Some JNull
                       then bind (to_number conv (payload f)) (\<lambda>m. Inr (payload(f \<mapsto> JNum m)))
                       else Inr payload))"

text \<open>\<open>addRecipe\<close> up to the construction of the document: the normalised payload.\<close>

definition addRecipe_payload :: "(json \<Rightarrow> error + jsnum) \<Rightarrow> recipe \<Rightarrow> error + recipe" where
  "addRecipe_payload conv payload = for_each (addRecipe_field conv) numeric_fields payload"

section \<open>The store's evaluation of the calories expression\<close>

text \<open>
  The document store is an external collaborator. The operators the builder emits are
  modelled after the store's manual: \<open>$split\<close>, \<open>$arrayElemAt\<close> and \<open>$trim\<close> answer
  \<open>null\<close> on a \<open>null\<close> or missing operand and reject an operand of the wrong type;
  \<open>$toDouble\<close> answers \<open>null\<close> on \<open>null\<close> and, having no \<open>onError\<close> value, raises a
  conversion failure on a string it cannot read. Which strings the store reads as a
  number, and how it orders two values, are parameters: \<open>td\<close> and \<open>cf\<close>.
  \<open>BNull\<close> stands for \<open>null\<close> and for a missing field.
\<close>

datatype bson = BNull | BNum jsnum | BStr string | BArr "bson list" | BBool bool

type_synonym document = "string \<Rightarrow> bson"

text \<open>
  \<open>$split\<close> with a non-empty delimiter. The counter is the number of characters of a
  delimiter just found that are still to be skipped.
\<close>

fun split_str :: "string \<Rightarrow> nat \<Rightarrow> string \<Rightarrow> string list" where
  "split_str d k [] = [[]]"
| "split_str d (Suc k) (c # cs) = split_str d k cs"
| "split_str d 0 (c # cs) =
     (if take (length d) (c # cs) = d then [] # split_str d (length d - 1) cs
      else (case split_str d 0 cs of p # ps \<Rightarrow> (c # p) # ps | [] \<Rightarrow> [[c]]))"

text \<open>\<open>$trim\<close> without \<open>chars\<close>: white space and the null character, at both ends.\<close>

definition is_trim_char :: "char \<Rightarrow> bool" where
  "is_trim_char c = (c \<in> set [CHR 0x00, CHR 0x09, CHR 0x0A, CHR 0x0B, CHR 0x0C, CHR 0x0D,
                               CHR 0x20, CHR 0xA0])"

definition trim :: "string \<Rightarrow> string" where
  "trim s = rev (dropWhile is_trim_char (rev (dropWhile is_trim_char s)))"

definition array_elem_at :: "bson list \<Rightarrow> rat \<Rightarrow> error + bson" where
  "array_elem_at xs r =
     (if of_int \<lfloor>r\<rfloor> \<noteq> r then Inl InvalidArgument
      else if 0 \<le> r then
        (case nth_opt xs (nat \<lfloor>r\<rfloor>) of Some x \<Rightarrow> Inr x | None \<Rightarrow> Inr BNull)
      else if nat \<lfloor>- r\<rfloor> \<le> length xs then
        (case nth_opt xs (length xs - nat \<lfloor>- r\<rfloor>) of Some x \<Rightarrow> Inr x | None \<Rightarrow> Inr BNull)
      else Inr BNull)"

fun eval_expr :: "(string \<Rightarrow> jsnum option) \<Rightarrow> (cmp \<Rightarrow> bson \<Rightarrow> bson \<Rightarrow> bool) \<Rightarrow> document \<Rightarrow> expr
                  \<Rightarrow> error + bson" where
  "eval_expr td cf doc (FieldPath p) = Inr (doc p)"
| "eval_expr td cf doc (StrLit s) = Inr (BStr s)"
| "eval_expr td cf doc (NumLit n) = Inr (BNum n)"
| "eval_expr td cf doc (Split a b) =
     bind (eval_expr td cf doc a) (\<lambda>x. bind (eval_expr td cf doc b) (\<lambda>y.
       if x = BNull \<or> y = BNull then Inr BNull
       else (case (x, y) of
               (BStr s, BStr d) \<Rightarrow>
                 if d = [] then Inl InvalidArgument else Inr (BArr (map BStr (split_str d 0 s)))
             | _ \<Rightarrow> Inl InvalidArgument)))"
| "eval_expr td cf doc (ArrayElemAt a i) =
     bind (eval_expr td cf doc a) (\<lambda>x. bind (eval_expr td cf doc i) (\<lambda>y.
       if x = BNull \<or> y = BNull then Inr BNull
       else (case (x, y) of
               (BArr xs, BNum (Num r)) \<Rightarrow> array_elem_at xs r
             | _ \<Rightarrow> Inl InvalidArgument)))"
| "eval_expr td cf doc (Trim a) =
     bind (eval_expr td cf doc a) (\<lambda>x.
       case x of BNull \<Rightarrow> Inr BNull | BStr s \<Rightarrow> Inr (BStr (trim s)) | _ \<Rightarrow> Inl InvalidArgument)"
| "eval_expr td cf doc (ToDouble a) =
     bind (eval_expr td cf doc a) (\<lambda>x.
       case x of
         BNull \<Rightarrow> Inr BNull
       | BNum n \<Rightarrow> Inr (BNum n)
       | BBool b \<Rightarrow> Inr (BNum (Num (if b then 1 else 0)))
       | BStr s \<Rightarrow> (case td s of Some n \<Rightarrow> Inr (BNum n) | None \<Rightarrow> Inl ConversionFailure)
       | BArr xs \<Rightarrow> Inl ConversionFailure)"
| "eval_expr td cf doc (Compare c a b) =
     bind (eval_expr td cf doc a) (\<lambda>x. bind (eval_expr td cf doc b) (\<lambda>y.
       Inr (BBool (cf c x y))))"

text \<open>A document matches \<open>{ $expr: e }\<close> when \<open>e\<close> evaluates to a truthy value.\<close>

definition bson_truthy :: "bson \<Rightarrow> bool" where
  "bson_truthy v = (case v of BNull \<Rightarrow> False | BBool b \<Rightarrow> b | BNum n \<Rightarrow> n \<noteq> Num 0 | _ \<Rightarrow> True)"

text \<open>
  The lookup with the filter \<open>{ $expr: e }\<close> over a collection: the documents that match,
  or the first failure of the evaluation, which fails the whole lookup.
\<close>

fun find_expr :: "(string \<Rightarrow> jsnum option) \<Rightarrow> (cmp \<Rightarrow> bson \<Rightarrow> bson \<Rightarrow> bool) \<Rightarrow> expr \<Rightarrow> document list
                  \<Rightarrow> error + document list" where
  "find_expr td cf e [] = Inr []"
| "find_expr td cf e (doc # docs) =
     bind (eval_expr td cf doc e) (\<lambda>v. bind (find_expr td cf e docs) (\<lambda>rest.
       Inr (if bson_truthy v then doc # rest else rest)))"

text \<open>The first token of the stored text: what precedes the first space.\<close>

definition first_token :: "string \<Rightarrow> string" where
  "first_token s = takeWhile (\<lambda>c. c \<noteq> CHR '' '') s"

text \<open>A string-to-double reader that reads unsigned decimal literals and nothing else.\<close>

definition decimal_reader :: "string \<Rightarrow> jsnum option" where
  "decimal_reader s = (if match_number s then Some (parseFloat s) else None)"

text \<open>The order of numbers, with \<open>null\<close> below every number, on the five operators.\<close>

definition number_order :: "cmp \<Rightarrow> bson \<Rightarrow> bson \<Rightarrow> bool" where
  "number_order c x y =
     (case (x, y) of
        (BNum (Num a), BNum (Num b)) \<Rightarrow>
          (case c of Gt \<Rightarrow> a > b | Lt \<Rightarrow> a < b | Gte \<Rightarrow> a \<ge> b | Lte \<Rightarrow> a \<le> b | Eq \<Rightarrow> a = b)
      | (BNull, BNum b) \<Rightarrow> (c = Lt \<or> c = Lte)
      | _ \<Rightarrow> False)"

section \<open>Notions of the specification\<close>

text \<open>The operator table of the specification; an absent operator is the empty string.\<close>

definition cmp_of :: "string \<Rightarrow> cmp" where
  "cmp_of op = (if op = ''>'' then Gt else if op = ''<'' then Lt
                else if op = ''>='' then Gte else if op = ''<='' then Lte else Eq)"

text \<open>The text \<open>digits[.digits]\<close>: integer digits \<open>ip\<close>, fraction digits \<open>fp\<close> (possibly none).\<close>

definition decimal_literal :: "string \<Rightarrow> string \<Rightarrow> string" where
  "decimal_literal ip fp = ip @ (if fp = [] then [] else CHR ''.'' # fp)"

text \<open>The number a digit string writes, by place value, and the decimal value of a literal.\<close>

definition written_nat :: "string \<Rightarrow> nat" where
  "written_nat ds = (\<Sum>i<length ds. digit_val (ds ! i) * 10 ^ (length ds - Suc i))"

definition written_decimal :: "string \<Rightarrow> string \<Rightarrow> rat" where
  "written_decimal ip fp =
     of_nat (written_nat ip) + (\<Sum>i<length fp. of_nat (digit_val (fp ! i)) / 10 ^ Suc i)"

text \<open>
  A non-negative rational that is a finite double: a significand below \<open>2^53\<close> at an
  exponent of at least \<open>-1074\<close>, below \<open>2^1024\<close>.
\<close>

definition double_value :: "rat \<Rightarrow> bool" where
  "double_value q = (\<exists>m e. q = of_nat m * pow2 e \<and> m < 2 ^ 53 \<and> - 1074 \<le> e \<and> q < 2 ^ 1024)"

text \<open>The grammar of section 4.1: optional operator, optional white space, a decimal literal.\<close>

definition matches_grammar :: "string \<Rightarrow> bool" where
  "matches_grammar s =
     (\<exists>op ws ip fp. (op \<in> set operators \<or> op = []) \<and> list_all is_space ws \<and> ip \<noteq> [] \<and>
        list_all is_digit ip \<and> list_all is_digit fp \<and> s = op @ ws @ decimal_literal ip fp)"

text \<open>A query whose recognised parameters are all strings.\<close>

definition parameters :: "string list" where
  "parameters = [''page'', ''limit'', ''sort'', ''title'', ''cuisine'', ''rating'',
                 ''total_time'', ''calories'']"

definition filter_parameters :: "string list" where
  "filter_parameters = [''title'', ''cuisine'', ''rating'', ''total_time'', ''calories'']"

fun is_string :: "qval option \<Rightarrow> bool" where
  "is_string None = True"
| "is_string (Some (QStr s)) = True"
| "is_string (Some v) = False"

definition string_query :: "query \<Rightarrow> bool" where
  "string_query q = list_all (\<lambda>k. is_string (q k)) parameters"

definition positive_integer :: "jsnum \<Rightarrow> bool" where
  "positive_integer n = (case n of Num r \<Rightarrow> 0 < r \<and> of_int \<lfloor>r\<rfloor> = r | _ \<Rightarrow> False)"

definition leading_minus :: "string \<Rightarrow> bool" where
  "leading_minus s = (case dropWhile is_space s of c # _ \<Rightarrow> c = CHR ''-'' | [] \<Rightarrow> False)"

text \<open>A number that is integer-valued or infinite, and one that is above zero.\<close>

definition whole_number :: "jsnum \<Rightarrow> bool" where
  "whole_number n = (case n of Num r \<Rightarrow> of_int \<lfloor>r\<rfloor> = r | NaN \<Rightarrow> False | _ \<Rightarrow> True)"

definition positive_number :: "jsnum \<Rightarrow> bool" where
  "positive_number n = (case n of Num r \<Rightarrow> 0 < r | PosInfinity \<Rightarrow> True | _ \<Rightarrow> False)"

text \<open>The sign a text writes before its digits: \<open>-\<close> negates, \<open>+\<close> or none does not.\<close>

definition signed :: "string \<Rightarrow> jsnum \<Rightarrow> jsnum" where
  "signed sg x = (if sg = ''-'' then negate x else x)"

text \<open>A numeric field that is a number other than \<open>NaN\<close>, or \<open>null\<close>.\<close>

definition number_or_null :: "json option \<Rightarrow> bool" where
  "number_or_null v = (case v of Some JNull \<Rightarrow> True | Some (JNum n) \<Rightarrow> n \<noteq> NaN | _ \<Rightarrow> False)"

text \<open>The expression of section 4.2 for a parsed calories predicate.\<close>

definition calories_expression :: "pred \<Rightarrow> expr" where
  "calories_expression p =
     (case p of Pred operator val \<Rightarrow>
        Compare operator
          (ToDouble (Trim (ArrayElemAt (Split (FieldPath ''nutrients.calories'') (StrLit '' ''))
                                       (NumLit (Num 0)))))
          (NumLit val))"

text \<open>A text that, after white space and an optional sign, begins with a digit.\<close>

definition begins_with_digit :: "string \<Rightarrow> bool" where
  "begins_with_digit s =
     (case dropWhile is_space s of
        [] \<Rightarrow> False
      | c # r \<Rightarrow> if c = CHR ''+'' \<or> c = CHR ''-''
                 then (case r of [] \<Rightarrow> False | d # _ \<Rightarrow> is_digit d)
                 else is_digit c)"

text \<open>A parameter that the numeric filter parser leaves unconstrained.\<close>

definition unconstrained :: "qval option \<Rightarrow> bool" where
  "unconstrained v = (v = None \<or> (\<exists>s. v = Some (QStr s) \<and> \<not> matches_grammar s))"


text \<open>A filter that holds a field exactly when its parameter constrains it.\<close>

definition omits_unparsable :: "query \<Rightarrow> filter \<Rightarrow> bool" where
  "omits_unparsable q g =
     ((title_f g = None \<longleftrightarrow> \<not> truthy (q ''title'')) \<and>
      (cuisine_f g = None \<longleftrightarrow> \<not> truthy (q ''cuisine'')) \<and>
      (rating_f g = None \<longleftrightarrow> unconstrained (q ''rating'')) \<and>
      (total_time_f g = None \<longleftrightarrow> unconstrained (q ''total_time'')) \<and>
      (expr_f g = None \<longleftrightarrow> unconstrained (q ''calories'')))"


text \<open>A document whose \<open>nutrients.calories\<close> holds the given text.\<close>

definition doc_with_calories :: "string \<Rightarrow> document" where
  "doc_with_calories s = (\<lambda>p. if p = ''nutrients.calories'' then BStr s else BNull)"


section \<open>Properties\<close>

subsection \<open>Rounding to a double\<close>

lemma bits_0: "bits 0 = 0"
  by (simp add: bits.simps)

lemma bits_1: "bits (Suc 0) = 1"
  by (simp add: bits.simps[of "Suc 0"] bits_0)

lemma bits_Bit0: "bits (numeral (Num.Bit0 n)) = Suc (bits (numeral n))"
  by (subst bits.simps) simp

lemma bits_Bit1: "bits (numeral (Num.Bit1 n)) = Suc (bits (numeral n))"
  by (subst bits.simps) simp

lemma bits_One: "bits 1 = 1"
  using bits_1 by simp

lemmas bits_eval = bits_0 bits_1 bits_One bits_Bit0 bits_Bit1

lemma bits_pos: "0 < n \<Longrightarrow> 0 < bits n"
  by (subst bits.simps) simp

lemma bits_bounds: "0 < n \<Longrightarrow> 2 ^ (bits n - 1) \<le> n \<and> n < 2 ^ bits n"
proof (induction n rule: bits.induct)
  case (1 n)
  have b: "bits n = Suc (bits (n div 2))"
    using 1(2) by (subst bits.simps) simp
  show ?case
  proof (cases "n div 2 = 0")
    case True
    then have "n = 1" using 1(2) by (simp add: div_eq_0_iff)
    then show ?thesis by (simp add: bits_1)
  next
    case False
    then have h: "2 ^ (bits (n div 2) - 1) \<le> n div 2" "n div 2 < 2 ^ bits (n div 2)"
      using 1 by simp_all
    have "0 < bits (n div 2)" using False bits_pos by simp
    then have e: "(2::nat) ^ bits (n div 2) = 2 * 2 ^ (bits (n div 2) - 1)"
      by (cases "bits (n div 2)") simp_all
    have lo: "2 ^ (bits n - 1) \<le> n"
    proof -
      have "(2::nat) ^ (bits n - 1) = 2 ^ bits (n div 2)" by (simp add: b)
      also have "\<dots> \<le> 2 * (n div 2)" using e h(1) by simp
      also have "\<dots> \<le> n" by simp
      finally show ?thesis .
    qed
    have hi: "n < 2 ^ bits n"
    proof -
      have "n < 2 * (n div 2) + 2" by presburger
      also have "\<dots> \<le> 2 * 2 ^ bits (n div 2)" using h(2) by simp
      also have "\<dots> = 2 ^ bits n" by (simp add: b)
      finally show ?thesis .
    qed
    show ?thesis using lo hi by simp
  qed
qed

lemma pow2_pos: "0 < pow2 e"
  by (simp add: pow2_def)

lemma pow2_nat: "pow2 (int n) = 2 ^ n"
  by (simp add: pow2_def)

lemma pow2_neg_nat: "pow2 (- int n) = 1 / 2 ^ n"
  by (simp add: pow2_def)

lemma pow2_add_nat: "pow2 (a + int n) = pow2 a * 2 ^ n"
proof (cases "0 \<le> a")
  case True
  then show ?thesis by (simp add: pow2_def nat_add_distrib power_add)
next
  case False
  show ?thesis
  proof (cases "0 \<le> a + int n")
    case True
    then have "n = nat (- a) + nat (a + int n)" using False by simp
    then have "(2::rat) ^ n = 2 ^ nat (- a) * 2 ^ nat (a + int n)"
      by (metis power_add)
    then show ?thesis using False True by (simp add: pow2_def)
  next
    case False2: False
    then have "nat (- a) = n + nat (- (a + int n))" by simp
    then have "(2::rat) ^ nat (- a) = 2 ^ n * 2 ^ nat (- (a + int n))"
      by (metis power_add)
    then show ?thesis using False False2 by (simp add: pow2_def)
  qed
qed

lemma pow2_mono: "a \<le> b \<Longrightarrow> pow2 a \<le> pow2 b"
proof -
  assume "a \<le> b"
  then obtain n where "b = a + int n" by (metis zle_iff_zadd)
  then have "pow2 b = pow2 a * 2 ^ n" by (simp add: pow2_add_nat)
  moreover have "(1::rat) \<le> 2 ^ n" by simp
  ultimately show ?thesis using pow2_pos[of a]
    by (metis mult.right_neutral mult_le_cancel_left_pos)
qed

lemma floor_log2_le:
  assumes "0 < q"
  shows "pow2 (floor_log2 q) \<le> q"
proof (cases "1 \<le> q")
  case True
  then have p: "0 < nat \<lfloor>q\<rfloor>" by simp
  have "(2::nat) ^ (bits (nat \<lfloor>q\<rfloor>) - 1) \<le> nat \<lfloor>q\<rfloor>"
    using bits_bounds[OF p] by simp
  then have "(of_nat (2 ^ (bits (nat \<lfloor>q\<rfloor>) - 1)) :: rat) \<le> of_nat (nat \<lfloor>q\<rfloor>)"
    using of_nat_le_iff by blast
  also have "\<dots> = of_int \<lfloor>q\<rfloor>" using True by simp
  also have "\<dots> \<le> q" by simp
  finally have "(2::rat) ^ (bits (nat \<lfloor>q\<rfloor>) - 1) \<le> q" by simp
  moreover have "pow2 (int (bits (nat \<lfloor>q\<rfloor>)) - 1) = 2 ^ (bits (nat \<lfloor>q\<rfloor>) - 1)"
    using pow2_nat[of "bits (nat \<lfloor>q\<rfloor>) - 1"] bits_pos[OF p] by (simp add: of_nat_diff)
  ultimately show ?thesis using True by (simp add: floor_log2_def)
next
  case False
  let ?N = "\<lceil>1 / q\<rceil>"
  have q1: "1 < 1 / q" using False assms by simp
  then have N2: "2 \<le> ?N" by linarith
  then have p: "0 < nat (?N - 1)" by simp
  have "nat (?N - 1) < 2 ^ bits (nat (?N - 1))"
    using bits_bounds[OF p] by simp
  then have "int (nat (?N - 1)) < int (2 ^ bits (nat (?N - 1)))"
    using of_nat_less_iff by blast
  moreover have "int (nat (?N - 1)) = ?N - 1" using N2 nat_0_le[of "?N - 1"] by linarith
  moreover have "int (2 ^ bits (nat (?N - 1))) = 2 ^ bits (nat (?N - 1))" by simp
  ultimately have "?N \<le> 2 ^ bits (nat (?N - 1))" by linarith
  then have "(of_int ?N :: rat) \<le> of_int (2 ^ bits (nat (?N - 1)))"
    using of_int_le_iff by blast
  then have up: "(of_int ?N :: rat) \<le> 2 ^ bits (nat (?N - 1))" by simp
  have "1 / q \<le> of_int ?N" by (rule le_of_int_ceiling)
  then have "1 / q \<le> 2 ^ bits (nat (?N - 1))" using up by (rule order_trans)
  then have "1 / 2 ^ bits (nat (?N - 1)) \<le> q"
    using assms by (simp add: field_simps)
  then show ?thesis using False by (simp add: floor_log2_def pow2_neg_nat)
qed

lemma round_half_even_int: "round_half_even (of_int z) = z"
  by (simp add: round_half_even_def)

lemma round_half_even_ge_floor: "\<lfloor>x\<rfloor> \<le> round_half_even x"
  by (simp add: round_half_even_def Let_def)

lemma to_double_exact:
  assumes "q = of_nat m * pow2 e" "0 < m" "m < 2 ^ 53" "- 1074 \<le> e" "q < 2 ^ 1024"
  shows "to_double q = Num q"
proof -
  have qpos: "0 < q" using assms(1,2) pow2_pos by simp
  define E where "E = max (floor_log2 q - 52) (- 1074)"
  have "q < 2 ^ 53 * pow2 e"
    using assms(1,3) pow2_pos[of e] by simp
  then have "q < pow2 (e + 53)"
    using pow2_add_nat[of e 53] by (simp add: mult.commute)
  then have "pow2 (floor_log2 q) < pow2 (e + 53)"
    using floor_log2_le[OF qpos] by simp
  then have "floor_log2 q < e + 53"
    using pow2_mono[of "e + 53" "floor_log2 q"] by linarith
  then have Ee: "E \<le> e" using assms(4) by (simp add: E_def)
  then obtain n where n: "e = E + int n" by (metis zle_iff_zadd)
  have "q / pow2 E = of_nat m * 2 ^ n"
    using pow2_pos[of E] by (simp add: assms(1) n pow2_add_nat)
  also have "\<dots> = of_int (int m * 2 ^ n)" by simp
  finally have x: "q / pow2 E = of_int (int m * 2 ^ n)" .
  have "of_int (round_half_even (q / pow2 E)) * pow2 E = q"
    unfolding x round_half_even_int using pow2_pos[of E] x by (simp add: field_simps)
  then show ?thesis
    using qpos assms(5) by (simp add: to_double_def Let_def E_def[symmetric])
qed

lemma to_double_nat:
  assumes "0 < n"
  shows "to_double (of_nat n) = PosInfinity \<or> (\<exists>j>0. to_double (of_nat n) = Num (of_int j))"
proof -
  let ?q = "of_nat n :: rat"
  have qpos: "0 < ?q" using assms by simp
  define E where "E = max (floor_log2 ?q - 52) (- 1074)"
  define m where "m = round_half_even (?q / pow2 E)"
  have "\<exists>j>0. of_int m * pow2 E = of_int j"
  proof (cases "E \<le> 0")
    case True
    then obtain k where k: "E = - int k" by (metis minus_minus nonpos_int_cases)
    have xeq: "?q / pow2 E = of_int (int n * 2 ^ k)"
      by (simp add: k pow2_neg_nat)
    have "m = int n * 2 ^ k"
      unfolding m_def xeq by (rule round_half_even_int)
    then have "of_int m * pow2 E = of_int (int n)"
      by (simp add: k pow2_neg_nat)
    then show ?thesis using assms by (metis of_nat_0_less_iff)
  next
    case False
    then have E: "E = floor_log2 ?q - 52" "0 < E" by (simp_all add: E_def)
    then obtain k where k: "E = int k" using zero_less_imp_eq_int by blast
    have "pow2 (floor_log2 ?q) = pow2 E * 2 ^ 52"
      using pow2_add_nat[of E 52] E(1) by simp
    then have "pow2 E * 2 ^ 52 \<le> ?q" using floor_log2_le[OF qpos] by simp
    then have "2 ^ 52 \<le> ?q / pow2 E"
      using pow2_pos[of E] by (simp add: field_simps)
    then have "(of_int (2 ^ 52) :: rat) \<le> ?q / pow2 E" by simp
    then have "2 ^ 52 \<le> \<lfloor>?q / pow2 E\<rfloor>" using le_floor_iff by blast
    then have "2 ^ 52 \<le> m"
      unfolding m_def using round_half_even_ge_floor[of "?q / pow2 E"] by linarith
    then have mpos: "0 < m * 2 ^ k"
      by (simp add: zero_less_mult_iff) 
    have "of_int m * pow2 E = of_int (m * 2 ^ k)"
      by (simp add: k pow2_nat)
    then show ?thesis using mpos by blast
  qed
  then show ?thesis
    using qpos by (auto simp: to_double_def Let_def E_def[symmetric] m_def[symmetric])
qed

lemma floor_one_tenth: "\<lfloor>36028797018963968 / 5 :: rat\<rfloor> = 7205759403792793"
  by (rule floor_unique) simp_all

lemma to_double_one_tenth: "to_double (1 / 10) = Num (3602879701896397 / 36028797018963968)"
proof -
  have c: "\<lceil>1 / (1 / 10) :: rat\<rceil> = 10" by simp
  have fl: "floor_log2 (1 / 10) = - 4"
    by (simp add: floor_log2_def c bits_eval)
  have x: "(1 / 10) / pow2 (- 56) = (36028797018963968 / 5 :: rat)"
    by (simp add: pow2_def)
  have r: "round_half_even (36028797018963968 / 5) = 7205759403792794"
    by (simp add: round_half_even_def floor_one_tenth Let_def)
  have e: "max (floor_log2 (1 / 10) - 52) (- 1074) = - 56"
    by (simp add: fl)
  have v: "of_int (round_half_even ((1 / 10) / pow2 (- 56))) * pow2 (- 56)
           = 3602879701896397 / 36028797018963968"
    unfolding x r by (simp add: pow2_def)
  show ?thesis
    unfolding to_double_def Let_def e v by simp
qed

lemma to_double_zero: "to_double 0 = Num 0"
  by (simp add: to_double_def)

lemma to_double_nat_exact:
  assumes "n < 2 ^ 53"
  shows "to_double (of_nat n) = Num (of_nat n)"
proof (cases "n = 0")
  case True
  then show ?thesis by (simp add: to_double_zero)
next
  case False
  have "(of_nat n :: rat) < of_nat (2 ^ 53)"
    using assms of_nat_less_iff by blast
  also have "(of_nat (2 ^ 53) :: rat) \<le> 2 ^ 1024" by simp
  finally have "(of_nat n :: rat) < 2 ^ 1024" .
  then show ?thesis
    using to_double_exact[of "of_nat n" n 0] False assms by (simp add: pow2_def)
qed

lemma to_double_numeral:
  assumes "numeral k < (2::nat) ^ 53"
  shows "to_double (numeral k) = Num (numeral k)"
  using to_double_nat_exact[OF assms] by simp

lemma to_double_one: "to_double 1 = Num 1"
  using to_double_nat_exact[of 1] by simp

lemma to_double_nine_halves: "to_double (9 / 2) = Num (9 / 2)"
  using to_double_exact[of "9 / 2" 9 "- 1"] by (simp add: pow2_def)

lemma round_half_even_near: "\<bar>of_int (round_half_even x) - x\<bar> \<le> 1 / 2"
proof -
  have "of_int \<lfloor>x\<rfloor> \<le> x" "x < of_int \<lfloor>x\<rfloor> + 1" by linarith+
  then show ?thesis
    by (auto simp: round_half_even_def Let_def abs_le_iff)
qed

lemma to_double_near:
  assumes "0 \<le> q"
  shows "to_double q = PosInfinity \<and> 2 ^ 1023 \<le> q
       \<or> (\<exists>v. to_double q = Num v \<and> \<bar>v - q\<bar> \<le> max (q / 2 ^ 53) (1 / 2 ^ 1075))"
proof (cases "q = 0")
  case True
  then show ?thesis by (simp add: to_double_zero)
next
  case False
  then have qpos: "0 < q" using assms by simp
  define E where "E = max (floor_log2 q - 52) (- 1074)"
  define v where "v = of_int (round_half_even (q / pow2 E)) * pow2 E"
  have "\<bar>v - q\<bar> = \<bar>of_int (round_half_even (q / pow2 E)) - q / pow2 E\<bar> * pow2 E"
  proof -
    have "v - q = (of_int (round_half_even (q / pow2 E)) - q / pow2 E) * pow2 E"
      using pow2_pos[of E] by (simp add: v_def field_simps)
    then show ?thesis using pow2_pos[of E] by (simp add: abs_mult)
  qed
  also have "\<dots> \<le> 1 / 2 * pow2 E"
    using round_half_even_near[of "q / pow2 E"] pow2_pos[of E]
    by (simp add: mult_right_mono)
  finally have err: "\<bar>v - q\<bar> \<le> pow2 E / 2" by simp
  have bound: "pow2 E / 2 \<le> max (q / 2 ^ 53) (1 / 2 ^ 1075)"
  proof (cases "floor_log2 q - 52 \<le> - 1074")
    case True
    then have "E = - 1074" by (simp add: E_def)
    then have "pow2 E / 2 = 1 / 2 ^ 1075" by (simp add: pow2_def)
    then show ?thesis by simp
  next
    case False
    then have "E = floor_log2 q - 52" by (simp add: E_def)
    then have "pow2 (floor_log2 q) = pow2 E * 2 ^ 52"
      using pow2_add_nat[of E 52] by simp
    then have "pow2 E * 2 ^ 52 \<le> q" using floor_log2_le[OF qpos] by simp
    then have "pow2 E / 2 \<le> q / 2 ^ 53" by (simp add: field_simps)
    then show ?thesis by simp
  qed
  have near: "\<bar>v - q\<bar> \<le> max (q / 2 ^ 53) (1 / 2 ^ 1075)"
    using err bound by (rule order_trans)
  show ?thesis
  proof (cases "2 ^ 1024 \<le> v")
    case True
    then have inf: "to_double q = PosInfinity"
      using qpos by (simp add: to_double_def Let_def E_def[symmetric] v_def[symmetric])
    have "2 ^ 1023 \<le> q"
    proof (rule ccontr)
      assume "\<not> 2 ^ 1023 \<le> q"
      then have small: "q < 2 ^ 1023" by simp
      have "q / 2 ^ 53 \<le> q" using qpos by (simp add: field_simps)
      then have "max (q / 2 ^ 53) (1 / 2 ^ 1075) < 2 ^ 1023"
        using small by simp
      then have "v < 2 ^ 1023 + 2 ^ 1023" using near small by linarith
      then show False using True by simp
    qed
    then show ?thesis using inf by simp
  next
    case False
    then have "to_double q = Num v"
      using qpos by (simp add: to_double_def Let_def E_def[symmetric] v_def[symmetric])
    then show ?thesis using near by blast
  qed
qed

lemma to_double_double_value:
  assumes "double_value q"
  shows "to_double q = Num q"
proof -
  from assms obtain m e where h: "q = of_nat m * pow2 e" "m < 2 ^ 53" "- 1074 \<le> e" "q < 2 ^ 1024"
    unfolding double_value_def by blast
  show ?thesis
  proof (cases "m = 0")
    case True
    then show ?thesis using h(1) by (simp add: to_double_zero)
  next
    case False
    then show ?thesis using to_double_exact[OF h(1) _ h(2,3,4)] by simp
  qed
qed

lemma round_half_even_mono_int:
  assumes "of_int K \<le> x"
  shows "K \<le> round_half_even x"
proof -
  have "K \<le> \<lfloor>x\<rfloor>" using assms le_floor_iff by blast
  then show ?thesis using round_half_even_ge_floor[of x] by linarith
qed

lemma to_double_overflow:
  assumes "2 ^ 1024 \<le> q"
  shows "to_double q = PosInfinity"
proof -
  have qpos: "0 < q"
  proof -
    have "(0::rat) < 2 ^ 1024" by simp
    then show ?thesis using assms by linarith
  qed
  define E where "E = max (floor_log2 q - 52) (- 1074)"
  define m where "m = round_half_even (q / pow2 E)"
  have "2 ^ 1024 \<le> of_int m * pow2 E"
  proof (cases "E \<le> 1024")
    case True
    then obtain k where k: "1024 = E + int k" by (metis zle_iff_zadd)
    have p: "pow2 1024 = pow2 E * 2 ^ k"
      using pow2_add_nat[of E k] k by simp
    have p1024: "pow2 1024 = 2 ^ 1024" by (simp add: pow2_def)
    have "pow2 E * 2 ^ k \<le> q" using assms p p1024 by simp
    then have "(2::rat) ^ k \<le> q / pow2 E"
      using pow2_pos[of E] by (simp add: field_simps)
    then have "(of_int (2 ^ k) :: rat) \<le> q / pow2 E" by simp
    then have "2 ^ k \<le> m"
      unfolding m_def by (rule round_half_even_mono_int)
    then have "(of_int (2 ^ k) :: rat) \<le> of_int m" using of_int_le_iff by blast
    then have "(2::rat) ^ k * pow2 E \<le> of_int m * pow2 E"
      using pow2_pos[of E] by (simp add: mult_right_mono)
    then show ?thesis using p p1024 by (simp add: mult.commute)
  next
    case False
    then have E: "E = floor_log2 q - 52" "1024 < E" by (simp_all add: E_def)
    have "pow2 (floor_log2 q) = pow2 E * 2 ^ 52"
      using pow2_add_nat[of E 52] E(1) by simp
    then have "pow2 E * 2 ^ 52 \<le> q" using floor_log2_le[OF qpos] by simp
    then have "(2::rat) ^ 52 \<le> q / pow2 E"
      using pow2_pos[of E] by (simp add: field_simps)
    moreover have "(1::rat) \<le> 2 ^ 52" by simp
    ultimately have "(1::rat) \<le> q / pow2 E" by (rule order_trans[rotated])
    then have "(of_int 1 :: rat) \<le> q / pow2 E" by simp
    then have "1 \<le> m"
      unfolding m_def by (rule round_half_even_mono_int)
    then have "(1::rat) \<le> of_int m" by simp
    then have a: "pow2 E \<le> of_int m * pow2 E"
      using pow2_pos[of E] by (simp add: mult_right_mono)
    have "pow2 1024 \<le> pow2 E" using E(2) by (simp add: pow2_mono)
    moreover have "pow2 1024 = 2 ^ 1024" by (simp add: pow2_def)
    ultimately have b: "2 ^ 1024 \<le> pow2 E" by simp
    show ?thesis using b a by (rule order_trans)
  qed
  then show ?thesis
    using qpos by (simp add: to_double_def Let_def E_def[symmetric] m_def[symmetric])
qed

lemma floor_half_2_53: "\<lfloor>9007199254740993 / 2 :: rat\<rfloor> = 4503599627370496"
  by (rule floor_unique) simp_all

lemma to_double_2_53_plus_1: "to_double 9007199254740993 = Num 9007199254740992"
proof -
  have fl: "floor_log2 9007199254740993 = 53"
    by (simp add: floor_log2_def bits_eval)
  have e: "max (floor_log2 9007199254740993 - 52) (- 1074) = 1"
    by (simp add: fl)
  have x: "9007199254740993 / pow2 1 = (9007199254740993 / 2 :: rat)"
    by (simp add: pow2_def)
  have r: "round_half_even (9007199254740993 / 2) = 4503599627370496"
    by (simp add: round_half_even_def floor_half_2_53 Let_def)
  have v: "of_int (round_half_even (9007199254740993 / pow2 1)) * pow2 1 = 9007199254740992"
    unfolding x r by (simp add: pow2_def)
  show ?thesis
    unfolding to_double_def Let_def e v by simp
qed

lemma floor_log2_gt:
  assumes "0 < q"
  shows "q < pow2 (floor_log2 q + 1)"
proof (cases "1 \<le> q")
  case True
  then have p: "0 < nat \<lfloor>q\<rfloor>" by simp
  have "nat \<lfloor>q\<rfloor> < 2 ^ bits (nat \<lfloor>q\<rfloor>)"
    using bits_bounds[OF p] by simp
  then have "int (nat \<lfloor>q\<rfloor>) < int (2 ^ bits (nat \<lfloor>q\<rfloor>))"
    using of_nat_less_iff by blast
  moreover have "int (nat \<lfloor>q\<rfloor>) = \<lfloor>q\<rfloor>" using True by simp
  moreover have "int (2 ^ bits (nat \<lfloor>q\<rfloor>)) = 2 ^ bits (nat \<lfloor>q\<rfloor>)" by simp
  ultimately have "\<lfloor>q\<rfloor> + 1 \<le> 2 ^ bits (nat \<lfloor>q\<rfloor>)" by linarith
  then have "(of_int (\<lfloor>q\<rfloor> + 1) :: rat) \<le> of_int (2 ^ bits (nat \<lfloor>q\<rfloor>))"
    using of_int_le_iff by blast
  then have up: "(of_int \<lfloor>q\<rfloor> + 1 :: rat) \<le> 2 ^ bits (nat \<lfloor>q\<rfloor>)" by simp
  have "q < of_int \<lfloor>q\<rfloor> + 1" by linarith
  then have "q < 2 ^ bits (nat \<lfloor>q\<rfloor>)" using up by (rule less_le_trans)
  moreover have "pow2 (int (bits (nat \<lfloor>q\<rfloor>)) - 1 + 1) = 2 ^ bits (nat \<lfloor>q\<rfloor>)"
    using pow2_nat[of "bits (nat \<lfloor>q\<rfloor>)"] by simp
  ultimately show ?thesis using True by (simp add: floor_log2_def)
next
  case False
  let ?N = "\<lceil>1 / q\<rceil>"
  let ?b = "bits (nat (?N - 1))"
  have q1: "1 < 1 / q" using False assms by simp
  then have N2: "2 \<le> ?N" by linarith
  then have p: "0 < nat (?N - 1)" by simp
  have "2 ^ (?b - 1) \<le> nat (?N - 1)"
    using bits_bounds[OF p] by simp
  then have "int (2 ^ (?b - 1)) \<le> int (nat (?N - 1))"
    using of_nat_le_iff by blast
  moreover have "int (nat (?N - 1)) = ?N - 1" using N2 nat_0_le[of "?N - 1"] by linarith
  moreover have "int (2 ^ (?b - 1)) = 2 ^ (?b - 1)" by simp
  ultimately have "2 ^ (?b - 1) \<le> ?N - 1" by linarith
  then have "(of_int (2 ^ (?b - 1)) :: rat) \<le> of_int (?N - 1)"
    using of_int_le_iff by blast
  then have lo: "(2 :: rat) ^ (?b - 1) \<le> of_int ?N - 1" by simp
  have "of_int ?N - 1 < 1 / q" using ceiling_correct[of "1 / q"] by simp
  with lo have "(2 :: rat) ^ (?b - 1) < 1 / q" by (rule le_less_trans)
  then have "(2 :: rat) ^ (?b - 1) * q < 1"
    using assms pos_less_divide_eq[of q "2 ^ (?b - 1)" 1] by simp
  then have "q * 2 ^ (?b - 1) < 1" by (simp add: mult.commute)
  then have "q < 1 / 2 ^ (?b - 1)"
    using pos_less_divide_eq[of "2 ^ (?b - 1)" q 1] by simp
  moreover have "pow2 (- int ?b + 1) = 1 / 2 ^ (?b - 1)"
  proof -
    obtain c where c: "?b = Suc c" using bits_pos[OF p] gr0_implies_Suc by blast
    have "pow2 (- int (Suc c) + 1) = pow2 (- int c)" by simp
    also have "\<dots> = 1 / 2 ^ c" by (rule pow2_neg_nat)
    finally show ?thesis unfolding c by simp
  qed
  ultimately show ?thesis using False by (simp add: floor_log2_def)
qed

lemma round_half_even_le: "round_half_even x \<le> \<lfloor>x\<rfloor> + 1"
  by (simp add: round_half_even_def Let_def)

lemma round_half_even_nonneg:
  assumes "0 \<le> x"
  shows "0 \<le> round_half_even x"
proof -
  have "0 \<le> \<lfloor>x\<rfloor>" using assms by simp
  then show ?thesis using round_half_even_ge_floor[of x] by linarith
qed

lemma double_valueI:
  assumes "0 \<le> m" "m \<le> 2 ^ 53" "- 1074 \<le> e" "of_int m * pow2 e < 2 ^ 1024"
  shows "double_value (of_int m * pow2 e)"
proof (cases "m = 2 ^ 53")
  case True
  have "pow2 (e + 1) = pow2 e * 2" using pow2_add_nat[of e 1] by simp
  then have eq: "of_int m * pow2 e = of_nat (2 ^ 52) * pow2 (e + 1)"
    unfolding True by simp
  have lt: "(2::nat) ^ 52 < 2 ^ 53" by simp
  have ge: "- 1074 \<le> e + 1" using assms(3) by simp
  show ?thesis
    unfolding double_value_def
    by (intro exI[of _ "2 ^ 52"] exI[of _ "e + 1"] conjI) (rule eq, rule lt, rule ge, rule assms(4))
next
  case False
  then have lt: "nat m < 2 ^ 53" using assms(1,2) by (simp add: nat_less_iff)
  have eq: "of_int m * pow2 e = of_nat (nat m) * pow2 e" using assms(1) by simp
  show ?thesis
    unfolding double_value_def
    by (intro exI[of _ "nat m"] exI[of _ e] conjI) (rule eq, rule lt, rule assms(3), rule assms(4))
qed

lemma to_double_is_double:
  assumes "0 \<le> q"
  shows "to_double q = PosInfinity \<or> (\<exists>v. to_double q = Num v \<and> double_value v)"
proof (cases "q = 0")
  case True
  have "double_value 0"
    unfolding double_value_def by (intro exI[of _ 0] exI[of _ 0]) simp
  then show ?thesis using True by (simp add: to_double_zero)
next
  case False
  then have qpos: "0 < q" using assms by simp
  define E where "E = max (floor_log2 q - 52) (- 1074)"
  define m where "m = round_half_even (q / pow2 E)"
  have "floor_log2 q + 1 \<le> E + 53" by (simp add: E_def)
  then have "pow2 (floor_log2 q + 1) \<le> pow2 (E + 53)" by (rule pow2_mono)
  then have "q < pow2 (E + 53)" using floor_log2_gt[OF qpos] by simp
  then have "q < pow2 E * 2 ^ 53" using pow2_add_nat[of E 53] by simp
  then have x: "q / pow2 E < 2 ^ 53" using pow2_pos[of E] by (simp add: field_simps)
  then have "q / pow2 E < of_int (2 ^ 53)" by simp
  then have "\<lfloor>q / pow2 E\<rfloor> < 2 ^ 53" using floor_less_iff by blast
  then have m53: "m \<le> 2 ^ 53"
    unfolding m_def using round_half_even_le[of "q / pow2 E"] by linarith
  have "0 \<le> q / pow2 E" using qpos pow2_pos[of E] by simp
  then have m0: "0 \<le> m" unfolding m_def by (rule round_half_even_nonneg)
  have E1074: "- 1074 \<le> E" by (simp add: E_def)
  show ?thesis
  proof (cases "2 ^ 1024 \<le> of_int m * pow2 E")
    case True
    then show ?thesis
      using qpos by (simp add: to_double_def Let_def E_def[symmetric] m_def[symmetric])
  next
    case False
    then have lt: "of_int m * pow2 E < 2 ^ 1024" by simp
    have "to_double q = Num (of_int m * pow2 E)"
      using qpos False by (simp add: to_double_def Let_def E_def[symmetric] m_def[symmetric])
    then show ?thesis using double_valueI[OF m0 m53 E1074 lt] by blast
  qed
qed


subsection \<open>The digits of a literal and its value\<close>

lemma foldl_digits: "foldl (\<lambda>a c. 10 * a + digit_val c) a ds = a * 10 ^ length ds + written_nat ds"
proof (induction ds arbitrary: a)
  case Nil
  then show ?case by (simp add: written_nat_def)
next
  case (Cons d ds)
  have "written_nat (d # ds) = digit_val d * 10 ^ length ds + written_nat ds"
    unfolding written_nat_def
    by (simp add: sum.lessThan_Suc_shift del: sum.lessThan_Suc)
  with Cons show ?case by (simp add: algebra_simps)
qed

lemma digits_val_written: "digits_val ds = written_nat ds"
  by (simp add: digits_val_def foldl_digits)

lemma written_nat_snoc: "written_nat (ds @ [d]) = 10 * written_nat ds + digit_val d"
  using foldl_digits[of 0 "ds @ [d]"] foldl_digits[of 0 ds] by simp

lemma frac_written:
  "(of_nat (written_nat fp) :: rat) / 10 ^ length fp = (\<Sum>i<length fp. of_nat (digit_val (fp ! i)) / 10 ^ Suc i)"
proof (induction fp rule: rev_induct)
  case Nil
  then show ?case by (simp add: written_nat_def)
next
  case (snoc d fp)
  have "(\<Sum>i<length (fp @ [d]). (of_nat (digit_val ((fp @ [d]) ! i)) :: rat) / 10 ^ Suc i)
        = (\<Sum>i<length fp. of_nat (digit_val (fp ! i)) / 10 ^ Suc i) + of_nat (digit_val d) / 10 ^ Suc (length fp)"
    by (simp add: nth_append)
  with snoc show ?case
    by (simp add: written_nat_snoc field_simps)
qed


lemma digit_not_space: "is_digit c \<Longrightarrow> \<not> is_space c"
  by (auto simp: is_digit_def is_space_def)

lemma point_not_digit: "\<not> is_digit CHR ''.''"
  by (simp add: is_digit_def)

lemma takeWhile_literal:
  assumes "list_all is_digit ip"
  shows "takeWhile is_digit (decimal_literal ip fp) = ip"
  using assms
  by (simp add: decimal_literal_def takeWhile_append2 list_all_iff point_not_digit)

lemma dropWhile_literal:
  assumes "list_all is_digit ip"
  shows "dropWhile is_digit (decimal_literal ip fp) = (if fp = [] then [] else CHR ''.'' # fp)"
  using assms
  by (simp add: decimal_literal_def dropWhile_append2 list_all_iff point_not_digit)

lemma match_number_literal:
  assumes "ip \<noteq> []" "list_all is_digit ip" "list_all is_digit fp"
  shows "match_number (decimal_literal ip fp)"
  using assms by (simp add: match_number_def takeWhile_literal dropWhile_literal)

lemma literal_head:
  assumes "ip \<noteq> []" "list_all is_digit ip"
  shows "\<exists>c r. decimal_literal ip fp = c # r \<and> is_digit c"
  using assms by (cases ip) (auto simp: decimal_literal_def)

lemma match_tail_literal:
  assumes "list_all is_space ws" "ip \<noteq> []" "list_all is_digit ip" "list_all is_digit fp"
  shows "match_tail (ws @ decimal_literal ip fp) = Some (decimal_literal ip fp)"
proof -
  obtain c r where cr: "decimal_literal ip fp = c # r" "is_digit c"
    using literal_head[OF assms(2,3)] by blast
  have "dropWhile is_space (ws @ decimal_literal ip fp) = decimal_literal ip fp"
    using assms(1) cr by (simp add: dropWhile_append2 list_all_iff digit_not_space)
  then show ?thesis
    using match_number_literal[OF assms(2-4)] by (simp add: match_tail_def)
qed

lemma head_not_operator:
  assumes "is_space c \<or> is_digit c"
  shows "c \<noteq> CHR ''='' \<and> c \<noteq> CHR ''<'' \<and> c \<noteq> CHR ''>''"
  using assms by (auto simp: is_space_def is_digit_def)

lemma regex_match_operator:
  assumes "op \<in> set operators" "match_tail (c # r) = Some t" "is_space c \<or> is_digit c"
  shows "regex_match (op @ c # r) = Some (Some op, t)"
proof -
  note h = head_not_operator[OF assms(3)]
  consider "op = ''>=''" | "op = ''<=''" | "op = ''=''" | "op = ''>''" | "op = ''<''"
    using assms(1) by (auto simp: operators_def)
  then show ?thesis
  proof cases
    case 1 then show ?thesis using assms(2) by (simp add: regex_match_def operators_def)
  next
    case 2 then show ?thesis using assms(2) by (simp add: regex_match_def operators_def)
  next
    case 3 then show ?thesis using assms(2) by (simp add: regex_match_def operators_def)
  next
    case 4 then show ?thesis using assms(2) h by (simp add: regex_match_def operators_def)
  next
    case 5 then show ?thesis using assms(2) h by (simp add: regex_match_def operators_def)
  qed
qed

lemma regex_match_bare:
  assumes "match_tail (c # r) = Some t" "is_space c \<or> is_digit c"
  shows "regex_match (c # r) = Some (None, t)"
  using assms(1) head_not_operator[OF assms(2)]
  by (simp add: regex_match_def operators_def)

lemma parseFloat_literal:
  assumes "ip \<noteq> []" "list_all is_digit ip" "list_all is_digit fp"
  shows "parseFloat (decimal_literal ip fp) = to_double (written_decimal ip fp)"
proof -
  have tw: "takeWhile is_digit fp = fp"
    using assms(3) by (simp add: list_all_iff)
  have fr: "(of_nat (digits_val fp) :: rat) / 10 ^ length fp
            = (\<Sum>i<length fp. of_nat (digit_val (fp ! i)) / 10 ^ Suc i)"
    by (simp only: digits_val_written frac_written)
  have "parseFloat (decimal_literal ip fp)
        = to_double (of_nat (digits_val ip) + of_nat (digits_val fp) / 10 ^ length fp)"
    using assms(1,2)
    by (simp add: parseFloat_def Let_def takeWhile_literal dropWhile_literal tw digits_val_def)
  then show ?thesis
    using fr by (simp add: written_decimal_def digits_val_written)
qed

lemma regex_match_literal:
  assumes "op \<in> set operators \<or> op = []"
    and "list_all is_space ws"
    and "ip \<noteq> []" "list_all is_digit ip" "list_all is_digit fp"
  shows "regex_match (op @ ws @ decimal_literal ip fp)
         = Some (if op = [] then None else Some op, decimal_literal ip fp)"
proof -
  let ?lit = "decimal_literal ip fp"
  obtain c r where cr: "ws @ ?lit = c # r" "is_space c \<or> is_digit c"
  proof (cases ws)
    case Nil
    then show ?thesis using literal_head[OF assms(3,4), of fp] that by auto
  next
    case (Cons w ws')
    then show ?thesis using assms(2) that by auto
  qed
  have tail: "match_tail (c # r) = Some ?lit"
    using match_tail_literal[OF assms(2-5)] cr(1) by simp
  show ?thesis
  proof (cases "op = []")
    case True
    then show ?thesis
      using regex_match_bare[OF tail cr(2)] cr(1) by simp
  next
    case False
    then have mem: "op \<in> set operators" using assms(1) by simp
    show ?thesis
      using regex_match_operator[OF mem tail cr(2)] cr(1) False by simp
  qed
qed

lemma written_decimal_nonneg: "0 \<le> written_decimal ip fp"
  by (simp add: written_decimal_def sum_nonneg)

text \<open>
  Claim C1, as the code has it. For an operator among \<open>>\<close>, \<open><\<close>, \<open>>=\<close>, \<open><=\<close>, \<open>=\<close> (or
  none, written as the empty string), followed by any run of white space and a literal
  \<open>digits[.digits]\<close>, \<open>parseNumericFilter\<close> answers the predicate of that operator, the
  two-character operators read whole; without an operator the predicate is equality.
  The threshold is the double nearest to the decimal value of the literal: it is a double
  or \<open>Infinity\<close>, that value itself when the value is a double, and otherwise a number
  within one part in \<open>2^53\<close> of it (within \<open>2^-1075\<close> for the smallest); it is
  \<open>Infinity\<close> for every value of at least \<open>2^1024\<close> and for no value below \<open>2^1023\<close>.
\<close>

theorem parseNumericFilter_operator_and_value:
  assumes "op \<in> set operators \<or> op = []"
    and "list_all is_space ws"
    and "ip \<noteq> []" "list_all is_digit ip" "list_all is_digit fp"
  shows "\<exists>t. parseNumericFilter (Some (QStr (op @ ws @ decimal_literal ip fp)))
              = Inr (Some (Pred (cmp_of op) t))
           \<and> t = to_double (written_decimal ip fp)
           \<and> (t = PosInfinity \<or> (\<exists>v. t = Num v \<and> double_value v))
           \<and> (double_value (written_decimal ip fp) \<longrightarrow> t = Num (written_decimal ip fp))
           \<and> (2 ^ 1024 \<le> written_decimal ip fp \<longrightarrow> t = PosInfinity)
           \<and> (t = PosInfinity \<and> 2 ^ 1023 \<le> written_decimal ip fp
              \<or> (\<exists>v. t = Num v \<and> \<bar>v - written_decimal ip fp\<bar>
                         \<le> max (written_decimal ip fp / 2 ^ 53) (1 / 2 ^ 1075)))"
proof -
  let ?lit = "decimal_literal ip fp"
  let ?t = "to_double (written_decimal ip fp)"
  have m: "regex_match (op @ ws @ ?lit) = Some (if op = [] then None else Some op, ?lit)"
    by (rule regex_match_literal[OF assms])
  have pf: "parseFloat ?lit = ?t"
    by (rule parseFloat_literal[OF assms(3-5)])
  have ne: "op @ ws @ ?lit \<noteq> []"
    using assms(3) by (simp add: decimal_literal_def)
  consider "op = []" | "op = ''>=''" | "op = ''<=''" | "op = ''=''" | "op = ''>''" | "op = ''<''"
    using assms(1) by (auto simp: operators_def)
  then have p: "parseNumericFilter (Some (QStr (op @ ws @ ?lit))) = Inr (Some (Pred (cmp_of op) ?t))"
  proof cases
    case 1
    then show ?thesis using m pf ne by (simp add: parseNumericFilter_def cmp_of_def)
  next
    case 2
    then show ?thesis using m pf by (simp add: parseNumericFilter_def cmp_of_def)
  next
    case 3
    then show ?thesis using m pf by (simp add: parseNumericFilter_def cmp_of_def)
  next
    case 4
    then show ?thesis using m pf by (simp add: parseNumericFilter_def cmp_of_def)
  next
    case 5
    then show ?thesis using m pf by (simp add: parseNumericFilter_def cmp_of_def)
  next
    case 6
    then show ?thesis using m pf by (simp add: parseNumericFilter_def cmp_of_def)
  qed
  have e: "double_value (written_decimal ip fp) \<longrightarrow> ?t = Num (written_decimal ip fp)"
    using to_double_double_value by blast
  have n: "?t = PosInfinity \<and> 2 ^ 1023 \<le> written_decimal ip fp
              \<or> (\<exists>v. ?t = Num v \<and> \<bar>v - written_decimal ip fp\<bar>
                         \<le> max (written_decimal ip fp / 2 ^ 53) (1 / 2 ^ 1075))"
    by (rule to_double_near[OF written_decimal_nonneg])
  have o: "2 ^ 1024 \<le> written_decimal ip fp \<longrightarrow> ?t = PosInfinity"
    using to_double_overflow by blast
  have d: "?t = PosInfinity \<or> (\<exists>v. ?t = Num v \<and> double_value v)"
    by (rule to_double_is_double[OF written_decimal_nonneg])
  show ?thesis
    using p d e o n by blast
qed

text \<open>The theorem at \<open>">= 4.5"\<close>, whose value \<open>9/2\<close> is a double, and at \<open>"42"\<close>.\<close>

theorem parseNumericFilter_operator_and_value_witness:
  "parseNumericFilter (Some (QStr ''>= 4.5'')) = Inr (Some (Pred Gte (Num (9 / 2))))
   \<and> parseNumericFilter (Some (QStr ''42'')) = Inr (Some (Pred Eq (Num 42)))"
proof -
  have va: "written_decimal ''4'' ''5'' = 9 / 2"
    by (simp add: written_decimal_def written_nat_def digit_val_def)
  have vb: "written_decimal ''42'' [] = 42"
    by (simp add: written_decimal_def written_nat_def digit_val_def lessThan_Suc numeral_2_eq_2)
  have "(9 / 2 :: rat) = of_nat 9 * pow2 (- 1)" by (simp add: pow2_def)
  then have da: "double_value (written_decimal ''4'' ''5'')"
    unfolding double_value_def va by (intro exI[of _ 9] exI[of _ "- 1"]) simp
  have "(42 :: rat) = of_nat 42 * pow2 0" by (simp add: pow2_def)
  then have db: "double_value (written_decimal ''42'' [])"
    unfolding double_value_def vb by (intro exI[of _ 42] exI[of _ 0]) simp
  have a: "parseNumericFilter (Some (QStr (''>='' @ '' '' @ decimal_literal ''4'' ''5'')))
           = Inr (Some (Pred (cmp_of ''>='') (Num (written_decimal ''4'' ''5''))))"
    using parseNumericFilter_operator_and_value[of "''>=''" "'' ''" "''4''" "''5''"] da
    by (auto simp: operators_def is_space_def is_digit_def)
  have b: "parseNumericFilter (Some (QStr ([] @ [] @ decimal_literal ''42'' [])))
           = Inr (Some (Pred (cmp_of []) (Num (written_decimal ''42'' []))))"
    using parseNumericFilter_operator_and_value[of "[]" "[]" "''42''" "[]"] db
    by (auto simp: is_digit_def)
  show ?thesis
    using a b by (simp add: va vb cmp_of_def decimal_literal_def)
qed

text \<open>
  Claim C1 as stated fails: the threshold of \<open>"0.1"\<close> is not the written value \<open>1/10\<close>, which
  is no double, but the double nearest to it.
\<close>

theorem one_tenth_counterexample:
  "parseNumericFilter (Some (QStr ''0.1''))
     = Inr (Some (Pred Eq (Num (3602879701896397 / 36028797018963968))))
   \<and> written_decimal ''0'' ''1'' = 1 / 10
   \<and> (3602879701896397 / 36028797018963968 :: rat) \<noteq> 1 / 10"
proof -
  have w: "written_decimal ''0'' ''1'' = 1 / 10"
    by (simp add: written_decimal_def written_nat_def digit_val_def)
  have m: "regex_match ''0.1'' = Some (None, ''0.1'')"
    by (simp add: regex_match_def operators_def match_tail_def match_number_def
        is_space_def is_digit_def)
  have "parseFloat (decimal_literal ''0'' ''1'') = to_double (written_decimal ''0'' ''1'')"
    by (rule parseFloat_literal) (simp_all add: is_digit_def)
  then have pf: "parseFloat ''0.1'' = Num (3602879701896397 / 36028797018963968)"
    by (simp add: w to_double_one_tenth decimal_literal_def)
  have "parseNumericFilter (Some (QStr ''0.1''))
     = Inr (Some (Pred Eq (Num (3602879701896397 / 36028797018963968))))"
    by (simp add: parseNumericFilter_def m pf)
  then show ?thesis using w by simp
qed

subsection \<open>Strings outside the grammar\<close>

lemma match_tail_Some:
  assumes "match_tail u = Some t"
  shows "\<exists>ws. list_all is_space ws \<and> u = ws @ t \<and> match_number t"
proof -
  from assms have t: "t = dropWhile is_space u" and m: "match_number t"
    by (auto simp: match_tail_def Let_def split: if_splits)
  have "list_all is_space (takeWhile is_space u)"
    by (simp add: list_all_iff) (meson set_takeWhileD)
  moreover have "u = takeWhile is_space u @ t"
    by (simp add: t)
  ultimately show ?thesis using m by blast
qed

lemma match_number_decompose:
  assumes "match_number t"
  shows "\<exists>ip fp. ip \<noteq> [] \<and> list_all is_digit ip \<and> list_all is_digit fp \<and> t = decimal_literal ip fp"
proof -
  let ?ip = "takeWhile is_digit t"
  have ip: "?ip \<noteq> []" "list_all is_digit ?ip"
    using assms by (auto simp: match_number_def list_all_iff dest: set_takeWhileD)
  show ?thesis
  proof (cases "dropWhile is_digit t")
    case Nil
    then have tw: "takeWhile is_digit t = t"
      by (simp add: takeWhile_eq_all_conv)
    have "decimal_literal ?ip [] = ?ip"
      by (simp add: decimal_literal_def)
    with tw have "t = decimal_literal ?ip []"
      by (simp only:)
    moreover have "list_all is_digit ([]::string)" by simp
    ultimately show ?thesis using ip by blast
  next
    case (Cons c f)
    then have c: "c = CHR ''.''" "f \<noteq> []" "list_all is_digit f"
      using assms by (auto simp: match_number_def)
    have "t = decimal_literal ?ip f"
      using takeWhile_dropWhile_id[of is_digit t] Cons c by (simp add: decimal_literal_def)
    then show ?thesis using ip c by blast
  qed
qed

lemma match_alts_Some:
  assumes "match_alts alts s = Some (g1, g2)"
  shows "\<exists>op rest. (op \<in> set alts \<or> op = []) \<and> s = op @ rest \<and> match_tail rest = Some g2"
  using assms
proof (induction alts)
  case Nil
  then have "match_tail s = Some g2" by (auto split: option.splits)
  then show ?case by auto
next
  case (Cons alt alts)
  show ?case
  proof (cases "take (length alt) s = alt \<and> match_tail (drop (length alt) s) \<noteq> None")
    case True
    then obtain g where g: "match_tail (drop (length alt) s) = Some g" by auto
    with True Cons.prems have "g = g2" by simp
    moreover have "s = alt @ drop (length alt) s"
      using True by (metis append_take_drop_id)
    ultimately show ?thesis using g by (metis list.set_intros(1))
  next
    case False
    then have "match_alts alts s = Some (g1, g2)"
      using Cons.prems by (auto split: option.splits if_splits)
    from Cons.IH[OF this] show ?thesis by (metis list.set_intros(2))
  qed
qed

lemma regex_match_grammar:
  assumes "regex_match s = Some (g1, g2)"
  shows "matches_grammar s"
proof -
  obtain op rest where op: "op \<in> set operators \<or> op = []" "s = op @ rest" "match_tail rest = Some g2"
    using match_alts_Some[OF assms[unfolded regex_match_def]] by blast
  obtain ws where ws: "list_all is_space ws" "rest = ws @ g2" "match_number g2"
    using match_tail_Some[OF op(3)] by blast
  obtain ip fp where lit: "ip \<noteq> []" "list_all is_digit ip" "list_all is_digit fp" "g2 = decimal_literal ip fp"
    using match_number_decompose[OF ws(3)] by blast
  show ?thesis
    unfolding matches_grammar_def using op ws lit by blast
qed

lemma grammar_regex_match:
  assumes "matches_grammar s"
  shows "regex_match s \<noteq> None"
proof -
  from assms obtain op ws ip fp where h: "op \<in> set operators \<or> op = []" "list_all is_space ws"
      "ip \<noteq> []" "list_all is_digit ip" "list_all is_digit fp" "s = op @ ws @ decimal_literal ip fp"
    unfolding matches_grammar_def by blast
  show ?thesis
    using regex_match_literal[OF h(1-5)] h(6) by simp
qed

lemma no_match_iff: "regex_match s = None \<longleftrightarrow> \<not> matches_grammar s"
proof (cases "regex_match s")
  case None
  then show ?thesis using grammar_regex_match[of s] by auto
next
  case (Some g)
  then show ?thesis using regex_match_grammar[of s "fst g" "snd g"] by simp
qed

text \<open>
  Claim C2. On \<open>null\<close> or \<open>undefined\<close>, on the empty string, and on every string that is
  not, as a whole, an optional operator, optional white space and a literal
  \<open>digits[.digits]\<close>, \<open>parseNumericFilter\<close> answers \<open>null\<close> and raises nothing.
\<close>

theorem parseNumericFilter_rejects:
  assumes "v = None \<or> (\<exists>s. v = Some (QStr s) \<and> \<not> matches_grammar s)"
  shows "parseNumericFilter v = Inr None"
  using assms
  by (auto simp: parseNumericFilter_def no_match_iff[symmetric])

text \<open>The theorem at \<open>null\<close>, \<open>"4.5.6"\<close>, \<open>">="\<close>, \<open>"abc"\<close> and the empty string.\<close>

theorem parseNumericFilter_rejects_witness:
  "parseNumericFilter None = Inr None
   \<and> \<not> matches_grammar ''4.5.6'' \<and> parseNumericFilter (Some (QStr ''4.5.6'')) = Inr None
   \<and> \<not> matches_grammar ''>='' \<and> parseNumericFilter (Some (QStr ''>='')) = Inr None
   \<and> \<not> matches_grammar ''abc'' \<and> parseNumericFilter (Some (QStr ''abc'')) = Inr None
   \<and> \<not> matches_grammar [] \<and> parseNumericFilter (Some (QStr [])) = Inr None"
proof -
  have g1: "\<not> matches_grammar ''4.5.6''"
    by (simp add: no_match_iff[symmetric] regex_match_def operators_def match_tail_def match_number_def
        is_space_def is_digit_def)
  have g2: "\<not> matches_grammar ''>=''"
    by (simp add: no_match_iff[symmetric] regex_match_def operators_def match_tail_def match_number_def
        is_space_def is_digit_def)
  have g3: "\<not> matches_grammar ''abc''"
    by (simp add: no_match_iff[symmetric] regex_match_def operators_def match_tail_def match_number_def
        is_space_def is_digit_def)
  have g4: "\<not> matches_grammar []"
    by (simp add: no_match_iff[symmetric] regex_match_def operators_def match_tail_def match_number_def
        is_space_def is_digit_def)
  show ?thesis
    using g1 g2 g3 g4
      parseNumericFilter_rejects[of None]
      parseNumericFilter_rejects[of "Some (QStr ''4.5.6'')"]
      parseNumericFilter_rejects[of "Some (QStr ''>='')"]
      parseNumericFilter_rejects[of "Some (QStr ''abc'')"]
      parseNumericFilter_rejects[of "Some (QStr [])"]
    by simp
qed

subsection \<open>The builders on queries of strings\<close>

lemma bind_Inr: "bind (Inr x) k = k x"
  by (simp add: bind_def)

lemma title_step:
  "(case v of Some x \<Rightarrow> if truthy (Some x) then upd x else f | None \<Rightarrow> f)
   = (if truthy v then (case v of Some x \<Rightarrow> upd x | None \<Rightarrow> f) else f)"
  by (cases v) simp_all

lemma parseNumericFilter_falsy: "\<not> truthy v \<Longrightarrow> parseNumericFilter v = Inr None"
  by (simp add: parseNumericFilter_def)

lemma is_string_cases:
  assumes "is_string v"
  shows "v = None \<or> (\<exists>s. v = Some (QStr s))"
proof (cases v)
  case None
  then show ?thesis by simp
next
  case (Some x)
  then show ?thesis using assms by (cases x) auto
qed

lemma parseNumericFilter_string: "is_string v \<Longrightarrow> \<exists>r. parseNumericFilter v = Inr r"
  using is_string_cases[of v]
  by (auto simp: parseNumericFilter_def Let_def split: option.splits)

lemma getRecipes_filter_parsed:
  assumes "parseNumericFilter (q ''rating'') = Inr r1"
    and "parseNumericFilter (q ''total_time'') = Inr r2"
    and "parseNumericFilter (q ''calories'') = Inr r3"
  shows "getRecipes_filter q =
     Inr \<lparr>title_f = (if truthy (q ''title'') then map_option (\<lambda>v. Regex v ''i'') (q ''title'') else None),
          cuisine_f = (if truthy (q ''cuisine'') then q ''cuisine'' else None),
          rating_f = r1, total_time_f = r2, expr_f = map_option calories_expression r3\<rparr>"
proof -
  have a: "(if truthy (q ''rating'')
               then bind (parseNumericFilter (q ''rating''))
                      (\<lambda>parsed. Inr (case parsed of Some p \<Rightarrow> f\<lparr>rating_f := Some p\<rparr> | None \<Rightarrow> f))
               else Inr f) = Inr (case r1 of Some p \<Rightarrow> f\<lparr>rating_f := Some p\<rparr> | None \<Rightarrow> f)" for f
    using assms(1) parseNumericFilter_falsy[of "q ''rating''"]
    by (cases "truthy (q ''rating'')") (simp_all add: bind_Inr)
  have b: "(if truthy (q ''total_time'')
               then bind (parseNumericFilter (q ''total_time''))
                      (\<lambda>parsed. Inr (case parsed of Some p \<Rightarrow> f\<lparr>total_time_f := Some p\<rparr> | None \<Rightarrow> f))
               else Inr f) = Inr (case r2 of Some p \<Rightarrow> f\<lparr>total_time_f := Some p\<rparr> | None \<Rightarrow> f)" for f
    using assms(2) parseNumericFilter_falsy[of "q ''total_time''"]
    by (cases "truthy (q ''total_time'')") (simp_all add: bind_Inr)
  have c: "(if truthy (q ''calories'')
               then bind (parseNumericFilter (q ''calories''))
                      (\<lambda>parsed. Inr (case parsed of
                           Some (Pred operator val) \<Rightarrow>
                             f\<lparr>expr_f := Some (Compare operator
                                   (ToDouble (Trim (ArrayElemAt
                                      (Split (FieldPath ''nutrients.calories'') (StrLit '' ''))
                                      (NumLit (Num 0)))))
                                   (NumLit val))\<rparr>
                         | None \<Rightarrow> f))
               else Inr f) = Inr (case r3 of Some p \<Rightarrow> f\<lparr>expr_f := Some (calories_expression p)\<rparr> | None \<Rightarrow> f)" for f
  proof -
    have "(\<lambda>parsed. case parsed of
                           Some (Pred operator val) \<Rightarrow>
                             f\<lparr>expr_f := Some (Compare operator
                                   (ToDouble (Trim (ArrayElemAt
                                      (Split (FieldPath ''nutrients.calories'') (StrLit '' ''))
                                      (NumLit (Num 0)))))
                                   (NumLit val))\<rparr>
                         | None \<Rightarrow> f)
          = (\<lambda>parsed. case parsed of Some p \<Rightarrow> f\<lparr>expr_f := Some (calories_expression p)\<rparr> | None \<Rightarrow> f)"
      by (auto simp: fun_eq_iff calories_expression_def split: option.splits pred.splits)
    then show ?thesis
      using assms(3) parseNumericFilter_falsy[of "q ''calories''"]
      by (cases "truthy (q ''calories'')") (simp_all add: bind_Inr)
  qed
  have "getRecipes_filter q = Inr (
     let f2 = (let f1 = (if truthy (q ''title'')
                         then (case q ''title'' of Some v \<Rightarrow> empty_filter\<lparr>title_f := Some (Regex v ''i'')\<rparr> | None \<Rightarrow> empty_filter)
                         else empty_filter)
               in if truthy (q ''cuisine'')
                  then (case q ''cuisine'' of Some v \<Rightarrow> f1\<lparr>cuisine_f := Some v\<rparr> | None \<Rightarrow> f1) else f1);
         f3 = (case r1 of Some p \<Rightarrow> f2\<lparr>rating_f := Some p\<rparr> | None \<Rightarrow> f2);
         f4 = (case r2 of Some p \<Rightarrow> f3\<lparr>total_time_f := Some p\<rparr> | None \<Rightarrow> f3)
     in (case r3 of Some p \<Rightarrow> f4\<lparr>expr_f := Some (calories_expression p)\<rparr> | None \<Rightarrow> f4))"
    unfolding getRecipes_filter_def Let_def title_step a bind_Inr b c ..
  then show ?thesis
    by (cases r1; cases r2; cases r3; cases "q ''title''"; cases "q ''cuisine''")
       (simp_all add: empty_filter_def Let_def)
qed

lemma searchRecipes_filter_parsed:
  assumes "parseNumericFilter (q ''rating'') = Inr r1"
    and "parseNumericFilter (q ''total_time'') = Inr r2"
    and "parseNumericFilter (q ''calories'') = Inr r3"
  shows "searchRecipes_filter q =
     Inr \<lparr>title_f = (if truthy (q ''title'') then map_option (\<lambda>v. Regex v ''i'') (q ''title'') else None),
          cuisine_f = (if truthy (q ''cuisine'') then q ''cuisine'' else None),
          rating_f = r1, total_time_f = r2, expr_f = map_option calories_expression r3\<rparr>"
proof -
  have a: "(if truthy (q ''rating'')
               then bind (parseNumericFilter (q ''rating''))
                      (\<lambda>parsed. Inr (case parsed of Some p \<Rightarrow> f\<lparr>rating_f := Some p\<rparr> | None \<Rightarrow> f))
               else Inr f) = Inr (case r1 of Some p \<Rightarrow> f\<lparr>rating_f := Some p\<rparr> | None \<Rightarrow> f)" for f
    using assms(1) parseNumericFilter_falsy[of "q ''rating''"]
    by (cases "truthy (q ''rating'')") (simp_all add: bind_Inr)
  have b: "(if truthy (q ''total_time'')
               then bind (parseNumericFilter (q ''total_time''))
                      (\<lambda>parsed. Inr (case parsed of Some p \<Rightarrow> f\<lparr>total_time_f := Some p\<rparr> | None \<Rightarrow> f))
               else Inr f) = Inr (case r2 of Some p \<Rightarrow> f\<lparr>total_time_f := Some p\<rparr> | None \<Rightarrow> f)" for f
    using assms(2) parseNumericFilter_falsy[of "q ''total_time''"]
    by (cases "truthy (q ''total_time'')") (simp_all add: bind_Inr)
  have c: "(if truthy (q ''calories'')
               then bind (parseNumericFilter (q ''calories''))
                      (\<lambda>parsed. Inr (case parsed of
                           Some (Pred operator val) \<Rightarrow>
                             f\<lparr>expr_f := Some (Compare operator
                                   (ToDouble (Trim (ArrayElemAt
                                      (Split (FieldPath ''nutrients.calories'') (StrLit '' ''))
                                      (NumLit (Num 0)))))
                                   (NumLit val))\<rparr>
                         | None \<Rightarrow> f))
               else Inr f) = Inr (case r3 of Some p \<Rightarrow> f\<lparr>expr_f := Some (calories_expression p)\<rparr> | None \<Rightarrow> f)" for f
  proof -
    have "(\<lambda>parsed. case parsed of
                           Some (Pred operator val) \<Rightarrow>
                             f\<lparr>expr_f := Some (Compare operator
                                   (ToDouble (Trim (ArrayElemAt
                                      (Split (FieldPath ''nutrients.calories'') (StrLit '' ''))
                                      (NumLit (Num 0)))))
                                   (NumLit val))\<rparr>
                         | None \<Rightarrow> f)
          = (\<lambda>parsed. case parsed of Some p \<Rightarrow> f\<lparr>expr_f := Some (calories_expression p)\<rparr> | None \<Rightarrow> f)"
      by (auto simp: fun_eq_iff calories_expression_def split: option.splits pred.splits)
    then show ?thesis
      using assms(3) parseNumericFilter_falsy[of "q ''calories''"]
      by (cases "truthy (q ''calories'')") (simp_all add: bind_Inr)
  qed
  have "searchRecipes_filter q = Inr (
     let f2 = (let f1 = (if truthy (q ''title'')
                         then (case q ''title'' of Some v \<Rightarrow> empty_filter\<lparr>title_f := Some (Regex v ''i'')\<rparr> | None \<Rightarrow> empty_filter)
                         else empty_filter)
               in if truthy (q ''cuisine'')
                  then (case q ''cuisine'' of Some v \<Rightarrow> f1\<lparr>cuisine_f := Some v\<rparr> | None \<Rightarrow> f1) else f1);
         f3 = (case r1 of Some p \<Rightarrow> f2\<lparr>rating_f := Some p\<rparr> | None \<Rightarrow> f2);
         f4 = (case r2 of Some p \<Rightarrow> f3\<lparr>total_time_f := Some p\<rparr> | None \<Rightarrow> f3)
     in (case r3 of Some p \<Rightarrow> f4\<lparr>expr_f := Some (calories_expression p)\<rparr> | None \<Rightarrow> f4))"
    unfolding searchRecipes_filter_def Let_def title_step a bind_Inr b c ..
  then show ?thesis
    by (cases r1; cases r2; cases r3; cases "q ''title''"; cases "q ''cuisine''")
       (simp_all add: empty_filter_def Let_def)
qed

lemma build_sort_string: "is_string (q ''sort'') \<Longrightarrow> \<exists>sb. build_sort q = Inr sb"
  using is_string_cases[of "q ''sort''"]
  by (auto simp: build_sort_def Let_def)

lemma string_query_fields:
  assumes "string_query q"
  shows "is_string (q ''page'')" "is_string (q ''limit'')" "is_string (q ''sort'')"
    "is_string (q ''title'')" "is_string (q ''cuisine'')" "is_string (q ''rating'')"
    "is_string (q ''total_time'')" "is_string (q ''calories'')"
  using assms by (simp_all add: string_query_def parameters_def)

lemma grammar_nonempty: "\<not> matches_grammar []"
  by (simp add: no_match_iff[symmetric] regex_match_def operators_def match_tail_def match_number_def)

lemma parse_None_iff:
  assumes "is_string v"
  shows "parseNumericFilter v = Inr None \<longleftrightarrow> unconstrained v"
proof (cases v)
  case None
  then show ?thesis by (simp add: unconstrained_def parseNumericFilter_def)
next
  case (Some x)
  then obtain s where x: "v = Some (QStr s)"
    using assms by (cases x) auto
  show ?thesis
  proof (cases "s = []")
    case True
    then show ?thesis using x grammar_nonempty
      by (simp add: unconstrained_def parseNumericFilter_def)
  next
    case False
    then show ?thesis using x
      by (auto simp: unconstrained_def parseNumericFilter_def Let_def no_match_iff[symmetric]
          split: option.splits)
  qed
qed

lemma truthy_title: "is_string v \<Longrightarrow> truthy v \<Longrightarrow> v \<noteq> None"
  by (cases v) auto

lemma parseInt_result:
  "parseInt s = NaN
   \<or> (\<exists>n. parseInt s = (if leading_minus s then negate (to_double (of_nat n))
                          else to_double (of_nat n)))"
proof -
  define S where "S = dropWhile is_space s"
  have sg: "((case S of c # _ \<Rightarrow> if c = CHR ''-'' then (-1::int) else 1 | [] \<Rightarrow> 1) = - 1)
            = leading_minus s"
    unfolding leading_minus_def S_def[symmetric] by (cases S) auto
  have "\<And>b (n::nat). (if b then NaN
                        else let number = to_double (of_nat n)
                             in if leading_minus s then negate number else number) = NaN
          \<or> (\<exists>k. (if b then NaN
                        else let number = to_double (of_nat n)
                             in if leading_minus s then negate number else number)
                 = (if leading_minus s then negate (to_double (of_nat k))
                    else to_double (of_nat k)))"
    by (simp add: Let_def) blast
  then show ?thesis
    unfolding parseInt_def Let_def S_def[symmetric] sg by blast
qed

lemma to_double_nat_cases:
  "to_double (of_nat n) = PosInfinity \<or> (\<exists>j\<ge>0. to_double (of_nat n) = Num (of_int j))"
proof (cases "n = 0")
  case True
  then show ?thesis using to_double_zero by (metis of_int_0 of_nat_0 order_refl)
next
  case False
  then show ?thesis using to_double_nat[of n] by (metis less_imp_le neq0_conv)
qed

lemma to_double_nat_zero_iff: "to_double (of_nat n) = Num 0 \<longleftrightarrow> n = 0"
proof (cases "n = 0")
  case True
  then show ?thesis by (simp add: to_double_zero)
next
  case False
  then have "0 < n" by simp
  from to_double_nat[OF this] False show ?thesis by auto
qed

lemma or_default_not_NaN: "d \<noteq> NaN \<Longrightarrow> or_default x d \<noteq> NaN"
  by (simp add: or_default_def)

lemma or_default_not_zero: "d \<noteq> Num 0 \<Longrightarrow> or_default x d \<noteq> Num 0"
  by (simp add: or_default_def)

lemma whole_number_cases:
  "whole_number (to_double (of_nat n))" "whole_number (negate (to_double (of_nat n)))"
  using to_double_nat_cases[of n]
  by (auto simp: whole_number_def negate_def)

lemma or_default_whole:
  assumes "whole_number d"
  shows "whole_number (or_default (parseInt s) d)"
  using parseInt_result[of s] assms whole_number_cases
  by (auto simp: or_default_def)

lemma not_hex_prefix:
  assumes "S = [] \<or> \<not> is_digit (hd S)"
  shows "\<not> (take 2 S = ''0x'' \<or> take 2 S = ''0X'')"
  using assms by (cases S) (auto simp: is_digit_def)

lemma takeWhile_no_digit:
  assumes "S = [] \<or> \<not> is_digit (hd S)"
  shows "takeWhile is_digit S = []"
  using assms by (cases S) auto

lemma parseInt_no_digit:
  assumes "\<not> begins_with_digit s"
  shows "parseInt s = NaN"
proof -
  define S where "S = dropWhile is_space s"
  define S1 where "S1 = (case S of c # r \<Rightarrow> if c = CHR ''+'' \<or> c = CHR ''-'' then r else S | [] \<Rightarrow> S)"
  have b: "\<not> (case S of [] \<Rightarrow> False
            | c # r \<Rightarrow> if c = CHR ''+'' \<or> c = CHR ''-''
                       then (case r of [] \<Rightarrow> False | d # _ \<Rightarrow> is_digit d)
                       else is_digit c)"
    using assms unfolding begins_with_digit_def S_def .
  have nd: "S1 = [] \<or> \<not> is_digit (hd S1)"
    using b unfolding S1_def by (cases S) (auto split: list.splits if_splits)
  show ?thesis
    unfolding parseInt_def Let_def S_def[symmetric] S1_def[symmetric]
    using not_hex_prefix[OF nd] takeWhile_no_digit[OF nd] by simp
qed

lemma or_default_positive:
  assumes "\<not> leading_minus s" "positive_number d"
  shows "positive_number (or_default (parseInt s) d)"
proof -
  consider "parseInt s = NaN" | n where "parseInt s = to_double (of_nat n)"
    using parseInt_result[of s] assms(1) by auto
  then show ?thesis
  proof cases
    case 1
    then show ?thesis using assms(2) by (simp add: or_default_def)
  next
    case 2
    consider "to_double (of_nat n) = PosInfinity" | j where "0 \<le> j" "to_double (of_nat n) = Num (of_int j)"
      using to_double_nat_cases[of n] by blast
    then show ?thesis
    proof cases
      case 1
      then show ?thesis using 2 by (simp add: or_default_def positive_number_def)
    next
      case b: 2
      then show ?thesis using 2 assms(2)
        by (cases "j = 0") (auto simp: or_default_def positive_number_def)
    qed
  qed
qed

lemma dropWhile_space_text:
  assumes "list_all is_space ws" "t = [] \<or> \<not> is_space (hd t)"
  shows "dropWhile is_space (ws @ t) = t"
proof -
  have "dropWhile is_space (ws @ t) = dropWhile is_space t"
    using assms(1) by (simp add: dropWhile_append2 list_all_iff)
  also have "\<dots> = t" using assms(2) by (cases t) auto
  finally show ?thesis .
qed

lemma sign_not_space: "\<not> is_space CHR ''+''" "\<not> is_space CHR ''-''"
  by (simp_all add: is_space_def)

lemma sign_not_digit: "\<not> is_digit CHR ''+''" "\<not> is_digit CHR ''-''"
  by (simp_all add: is_digit_def)

lemma takeWhile_digits_rest:
  assumes "list_all is_digit ds" "rest = [] \<or> \<not> is_digit (hd rest)"
  shows "takeWhile is_digit (ds @ rest) = ds"
proof -
  have "takeWhile is_digit (ds @ rest) = ds @ takeWhile is_digit rest"
    using assms(1) by (simp add: takeWhile_append2 list_all_iff)
  also have "takeWhile is_digit rest = []" using assms(2) by (cases rest) auto
  finally show ?thesis by simp
qed

lemma parseInt_decimal:
  assumes "list_all is_space ws" "sg = [] \<or> sg = ''+'' \<or> sg = ''-''"
    and "ds \<noteq> []" "list_all is_digit ds" "rest = [] \<or> \<not> is_digit (hd rest)"
    and "take 2 (ds @ rest) \<noteq> ''0x''" "take 2 (ds @ rest) \<noteq> ''0X''"
  shows "parseInt (ws @ sg @ ds @ rest) = signed sg (to_double (of_nat (written_nat ds)))"
proof -
  obtain d ds' where ds: "ds = d # ds'" "is_digit d"
    using assms(3,4) by (cases ds) auto
  have start: "sg @ ds @ rest = [] \<or> \<not> is_space (hd (sg @ ds @ rest))"
    using assms(2) ds digit_not_space sign_not_space by auto
  have S: "dropWhile is_space (ws @ sg @ ds @ rest) = sg @ ds @ rest"
    by (rule dropWhile_space_text[OF assms(1) start])
  have d_sign: "d \<noteq> CHR ''+''" "d \<noteq> CHR ''-''"
    using ds(2) sign_not_digit by auto
  have S1: "(case sg @ ds @ rest of c # r \<Rightarrow> if c = CHR ''+'' \<or> c = CHR ''-'' then r else sg @ ds @ rest
             | [] \<Rightarrow> sg @ ds @ rest) = ds @ rest"
    using assms(2) ds(1) d_sign by auto
  have sign: "((case sg @ ds @ rest of c # _ \<Rightarrow> if c = CHR ''-'' then (-1::int) else 1 | [] \<Rightarrow> 1) = - 1)
              = (sg = ''-'')"
    using assms(2) ds(1) d_sign by auto
  have Z: "takeWhile is_digit (ds @ rest) = ds"
    by (rule takeWhile_digits_rest[OF assms(4,5)])
  show ?thesis
    unfolding parseInt_def Let_def S S1 sign
    using assms(3,6,7) by (simp add: Z signed_def digits_val_written)
qed

lemma getRecipes_build_string:
  assumes "string_query q"
  shows "\<exists>sb f. build_sort q = Inr sb \<and> getRecipes_filter q = Inr f \<and>
           getRecipes_build q =
             Inr \<lparr>page = or_default (parseInt (to_string_opt (q ''page''))) (Num 1),
                  limit = or_default (parseInt (to_string_opt (q ''limit''))) (Num 10),
                  sortBy = sb, filter_of = f\<rparr>"
proof -
  note s = string_query_fields[OF assms]
  obtain r1 where r1: "parseNumericFilter (q ''rating'') = Inr r1"
    using parseNumericFilter_string[OF s(6)] by blast
  obtain r2 where r2: "parseNumericFilter (q ''total_time'') = Inr r2"
    using parseNumericFilter_string[OF s(7)] by blast
  obtain r3 where r3: "parseNumericFilter (q ''calories'') = Inr r3"
    using parseNumericFilter_string[OF s(8)] by blast
  obtain sb where sb: "build_sort q = Inr sb"
    using build_sort_string[of q] s(3) by blast
  obtain f where f: "getRecipes_filter q = Inr f"
    using getRecipes_filter_parsed[OF r1 r2 r3] by blast
  show ?thesis
    by (simp add: getRecipes_build_def Let_def bind_def sb f)
qed

lemma split_on_no_sep: "d \<notin> set a \<Longrightarrow> split_on d a = [a]"
  by (induction a) auto

lemma split_on_sep: "d \<notin> set a \<Longrightarrow> split_on d (a @ d # b) = a # split_on d b"
  by (induction a) auto

lemma build_sort_field_dir:
  assumes "CHR '':'' \<notin> set field" "CHR '':'' \<notin> set dir"
    and "q ''sort'' = Some (QStr (field @ CHR '':'' # dir @ rest))"
    and "rest = [] \<or> (\<exists>r. rest = CHR '':'' # r)"
  shows "build_sort q = Inr (set_sort field (if dir = ''asc'' then 1 else - 1))"
proof -
  have "split_on CHR '':'' (dir @ rest) = dir # tl (split_on CHR '':'' (dir @ rest))"
    using assms(4)
  proof
    assume "rest = []"
    then show ?thesis using split_on_no_sep[OF assms(2)] by simp
  next
    assume "\<exists>r. rest = CHR '':'' # r"
    then show ?thesis using split_on_sep[OF assms(2)] by auto
  qed
  then have "split_on CHR '':'' (field @ CHR '':'' # dir @ rest)
             = field # dir # tl (split_on CHR '':'' (dir @ rest))"
    using split_on_sep[OF assms(1), of "dir @ rest"] by simp
  then show ?thesis
    using assms(3) by (simp add: build_sort_def Let_def)
qed

lemma build_sort_field_only:
  assumes "CHR '':'' \<notin> set field" "field \<noteq> []" "q ''sort'' = Some (QStr field)"
  shows "build_sort q = Inr (set_sort field (- 1))"
  using assms split_on_no_sep[OF assms(1)]
  by (simp add: build_sort_def Let_def)

lemma build_sort_default:
  assumes "q ''sort'' = None \<or> q ''sort'' = Some (QStr [])"
  shows "build_sort q = Inr [(''rating'', - 1)]"
  using assms by (auto simp: build_sort_def)

subsection \<open>The examples of the specification\<close>

text \<open>The five example inputs of section 8 of the specification, evaluated.\<close>

lemma example_rating_title_page_limit:
  "getRecipes_build [''rating'' \<mapsto> QStr ''>=4.5'', ''title'' \<mapsto> QStr ''pie'',
                     ''page'' \<mapsto> QStr ''2'', ''limit'' \<mapsto> QStr ''5'']
   = Inr \<lparr>page = Num 2, limit = Num 5, sortBy = [(''rating'', - 1)],
          filter_of = empty_filter\<lparr>title_f := Some (Regex (QStr ''pie'') ''i''),
                                     rating_f := Some (Pred Gte (Num (9 / 2)))\<rparr>\<rparr>"
  by (simp add: getRecipes_build_def getRecipes_filter_def build_sort_def bind_def Let_def
      parseInt_def to_string_opt_def or_default_def to_double_numeral to_double_zero
      to_double_one negate_def parseNumericFilter_def empty_filter_def
      regex_match_def operators_def match_tail_def match_number_def parseFloat_def
      digits_val_def digit_val_def is_space_def is_digit_def to_double_nine_halves)

lemma example_sort_title_asc:
  "getRecipes_build [''sort'' \<mapsto> QStr ''title:asc'']
   = Inr \<lparr>page = Num 1, limit = Num 10, sortBy = [(''title'', 1)], filter_of = empty_filter\<rparr>"
  by (simp add: getRecipes_build_def getRecipes_filter_def build_sort_def set_sort_def bind_def
      Let_def parseInt_def to_string_opt_def or_default_def to_double_numeral to_double_zero
      to_double_one negate_def parseNumericFilter_def
      is_space_def is_digit_def)

lemma example_calories:
  "getRecipes_build [''calories'' \<mapsto> QStr ''<=400'']
   = Inr \<lparr>page = Num 1, limit = Num 10, sortBy = [(''rating'', - 1)],
          filter_of = empty_filter\<lparr>expr_f := Some (calories_expression (Pred Lte (Num 400)))\<rparr>\<rparr>"
  by (simp add: getRecipes_build_def getRecipes_filter_def build_sort_def bind_def Let_def
      parseInt_def to_string_opt_def or_default_def to_double_numeral to_double_zero
      to_double_one negate_def parseNumericFilter_def empty_filter_def
      calories_expression_def regex_match_def operators_def match_tail_def match_number_def
      parseFloat_def digits_val_def digit_val_def is_space_def is_digit_def)

lemma example_rating_banana:
  "getRecipes_build [''rating'' \<mapsto> QStr ''banana'']
   = Inr \<lparr>page = Num 1, limit = Num 10, sortBy = [(''rating'', - 1)], filter_of = empty_filter\<rparr>"
  by (simp add: getRecipes_build_def getRecipes_filter_def build_sort_def bind_def Let_def
      parseInt_def to_string_opt_def or_default_def to_double_numeral to_double_zero
      to_double_one negate_def parseNumericFilter_def empty_filter_def
      regex_match_def operators_def match_tail_def match_number_def is_space_def is_digit_def)

lemma example_empty_query:
  "getRecipes_build Map.empty
   = Inr \<lparr>page = Num 1, limit = Num 10, sortBy = [(''rating'', - 1)], filter_of = empty_filter\<rparr>"
  by (simp add: getRecipes_build_def getRecipes_filter_def build_sort_def bind_def Let_def
      parseInt_def to_string_opt_def or_default_def to_double_numeral to_double_zero
      to_double_one negate_def parseNumericFilter_def
      is_space_def is_digit_def)

text \<open>
  Rounding and overflow: \<open>2^53 + 1\<close> is no double and reads as \<open>2^53\<close>; a text of 310
  digits reads as \<open>Infinity\<close>, also as a page.
\<close>

lemma example_parseFloat_rounds:
  "parseFloat ''9007199254740993'' = Num 9007199254740992"
proof -
  have w: "written_decimal ''9007199254740993'' [] = 9007199254740993"
    by (simp add: written_decimal_def digits_val_written[symmetric] digits_val_def digit_val_def)
  have "parseFloat (decimal_literal ''9007199254740993'' []) = to_double (written_decimal ''9007199254740993'' [])"
    by (rule parseFloat_literal) (simp_all add: is_digit_def)
  then show ?thesis
    by (simp add: w to_double_2_53_plus_1 decimal_literal_def)
qed

lemma example_parseInt_overflow:
  "parseInt ''1000000000000000000000000000000000000000000000000000000000000000000000000000000000000000000000000000000000000000000000000000000000000000000000000000000000000000000000000000000000000000000000000000000000000000000000000000000000000000000000000000000000000000000000000000000000000000000000000000000000000000000000'' = PosInfinity"
proof -
  have w: "written_nat ''1000000000000000000000000000000000000000000000000000000000000000000000000000000000000000000000000000000000000000000000000000000000000000000000000000000000000000000000000000000000000000000000000000000000000000000000000000000000000000000000000000000000000000000000000000000000000000000000000000000000000000000000'' = 10 ^ 309"
    by (simp add: digits_val_written[symmetric] digits_val_def digit_val_def)
  have "(2::rat) ^ 1024 \<le> of_nat (written_nat ''1000000000000000000000000000000000000000000000000000000000000000000000000000000000000000000000000000000000000000000000000000000000000000000000000000000000000000000000000000000000000000000000000000000000000000000000000000000000000000000000000000000000000000000000000000000000000000000000000000000000000000000000'')"
    unfolding w by simp
  then have o: "to_double (of_nat (written_nat ''1000000000000000000000000000000000000000000000000000000000000000000000000000000000000000000000000000000000000000000000000000000000000000000000000000000000000000000000000000000000000000000000000000000000000000000000000000000000000000000000000000000000000000000000000000000000000000000000000000000000000000000000'')) = PosInfinity"
    by (rule to_double_overflow)
  have "parseInt ([] @ [] @ ''1000000000000000000000000000000000000000000000000000000000000000000000000000000000000000000000000000000000000000000000000000000000000000000000000000000000000000000000000000000000000000000000000000000000000000000000000000000000000000000000000000000000000000000000000000000000000000000000000000000000000000000000'' @ []) = signed [] (to_double (of_nat (written_nat ''1000000000000000000000000000000000000000000000000000000000000000000000000000000000000000000000000000000000000000000000000000000000000000000000000000000000000000000000000000000000000000000000000000000000000000000000000000000000000000000000000000000000000000000000000000000000000000000000000000000000000000000000'')))"
    by (rule parseInt_decimal) (simp_all add: is_digit_def)
  then show ?thesis
    by (simp add: o signed_def)
qed

lemma example_page_overflow:
  "getRecipes_build [''page'' \<mapsto> QStr ''1000000000000000000000000000000000000000000000000000000000000000000000000000000000000000000000000000000000000000000000000000000000000000000000000000000000000000000000000000000000000000000000000000000000000000000000000000000000000000000000000000000000000000000000000000000000000000000000000000000000000000000000'']
   = Inr \<lparr>page = PosInfinity, limit = Num 10, sortBy = [(''rating'', - 1)],
          filter_of = empty_filter\<rparr>"
proof -
  have l: "parseInt ''undefined'' = NaN"
    by (rule parseInt_no_digit) (simp add: begins_with_digit_def is_space_def is_digit_def)
  show ?thesis
    by (simp add: getRecipes_build_def getRecipes_filter_def build_sort_def bind_def Let_def
        to_string_opt_def or_default_def example_parseInt_overflow l parseNumericFilter_def)
qed

text \<open>An array where a string is expected: \<open>split\<close> and \<open>match\<close> are missing and the build raises.\<close>

lemma example_array_parameter:
  "getRecipes_build [''sort'' \<mapsto> QArr [QStr ''a'', QStr ''b'']] = Inl TypeError"
  "searchRecipes_filter [''rating'' \<mapsto> QArr [QStr ''1'', QStr ''2'']] = Inl TypeError"
  by (simp_all add: getRecipes_build_def searchRecipes_filter_def build_sort_def bind_def Let_def
      parseNumericFilter_def)

subsection \<open>The builder raises nothing on strings\<close>

text \<open>
  Claim C4. When every recognised parameter is a string or absent, \<open>getRecipes\<close> builds a
  query (page, limit, sort and filter) and \<open>searchRecipes\<close> builds a filter, without
  raising; page and limit are numbers; and the filter holds the title, the cuisine, the
  rating, the total time and the calories expression exactly when the parameter is,
  respectively, non-empty or accepted by the numeric filter parser: an absent or
  unparsable parameter is left out.
\<close>

theorem builder_never_throws:
  assumes "string_query q"
  shows "\<exists>spec f. getRecipes_build q = Inr spec \<and> searchRecipes_filter q = Inr f
           \<and> page spec \<noteq> NaN \<and> limit spec \<noteq> NaN
           \<and> omits_unparsable q (filter_of spec) \<and> omits_unparsable q f"
proof -
  note s = string_query_fields[OF assms]
  obtain r1 where r1: "parseNumericFilter (q ''rating'') = Inr r1"
    using parseNumericFilter_string[OF s(6)] by blast
  obtain r2 where r2: "parseNumericFilter (q ''total_time'') = Inr r2"
    using parseNumericFilter_string[OF s(7)] by blast
  obtain r3 where r3: "parseNumericFilter (q ''calories'') = Inr r3"
    using parseNumericFilter_string[OF s(8)] by blast
  obtain sb where sb: "build_sort q = Inr sb"
    using build_sort_string[of q] s(3) by blast
  let ?f = "\<lparr>title_f = (if truthy (q ''title'') then map_option (\<lambda>v. Regex v ''i'') (q ''title'') else None),
          cuisine_f = (if truthy (q ''cuisine'') then q ''cuisine'' else None),
          rating_f = r1, total_time_f = r2, expr_f = map_option calories_expression r3\<rparr>"
  have g: "getRecipes_filter q = Inr ?f"
    by (rule getRecipes_filter_parsed[OF r1 r2 r3])
  have h: "searchRecipes_filter q = Inr ?f"
    by (rule searchRecipes_filter_parsed[OF r1 r2 r3])
  have u1: "r1 = None \<longleftrightarrow> unconstrained (q ''rating'')"
    using parse_None_iff[OF s(6)] r1 by simp
  have u2: "r2 = None \<longleftrightarrow> unconstrained (q ''total_time'')"
    using parse_None_iff[OF s(7)] r2 by simp
  have u3: "r3 = None \<longleftrightarrow> unconstrained (q ''calories'')"
    using parse_None_iff[OF s(8)] r3 by simp
  have om: "omits_unparsable q ?f"
    using u1 u2 u3 truthy_title[OF s(4)] truthy_title[OF s(5)]
    by (simp add: omits_unparsable_def)
  have pn: "or_default (parseInt (to_string_opt (q ''page''))) (Num 1) \<noteq> NaN"
    "or_default (parseInt (to_string_opt (q ''limit''))) (Num 10) \<noteq> NaN"
    by (simp_all add: or_default_not_NaN)
  have "getRecipes_build q =
          Inr \<lparr>page = or_default (parseInt (to_string_opt (q ''page''))) (Num 1),
               limit = or_default (parseInt (to_string_opt (q ''limit''))) (Num 10),
               sortBy = sb, filter_of = ?f\<rparr>"
    by (simp add: getRecipes_build_def Let_def bind_def sb g)
  then show ?thesis
    using h om pn by simp
qed

text \<open>The theorem at \<open>{rating: "banana", page: "x", title: "pie"}\<close>.\<close>

theorem builder_never_throws_witness:
  "string_query [''rating'' \<mapsto> QStr ''banana'', ''page'' \<mapsto> QStr ''x'', ''title'' \<mapsto> QStr ''pie'']
   \<and> (\<exists>spec f. getRecipes_build [''rating'' \<mapsto> QStr ''banana'', ''page'' \<mapsto> QStr ''x'',
                                        ''title'' \<mapsto> QStr ''pie''] = Inr spec
          \<and> searchRecipes_filter [''rating'' \<mapsto> QStr ''banana'', ''page'' \<mapsto> QStr ''x'',
                                    ''title'' \<mapsto> QStr ''pie''] = Inr f
          \<and> rating_f (filter_of spec) = None \<and> rating_f f = None
          \<and> title_f (filter_of spec) \<noteq> None \<and> title_f f \<noteq> None)"
proof -
  let ?q = "[''rating'' \<mapsto> QStr ''banana'', ''page'' \<mapsto> QStr ''x'', ''title'' \<mapsto> QStr ''pie'']"
  have h: "string_query ?q"
    by (simp add: string_query_def parameters_def)
  have g: "\<not> matches_grammar ''banana''"
    by (simp add: no_match_iff[symmetric] regex_match_def operators_def match_tail_def
        match_number_def is_space_def is_digit_def)
  have u: "unconstrained (?q ''rating'')"
    using g by (simp add: unconstrained_def)
  have t: "truthy (?q ''title'')"
    by simp
  obtain spec f where b: "getRecipes_build ?q = Inr spec" "searchRecipes_filter ?q = Inr f"
      "omits_unparsable ?q (filter_of spec)" "omits_unparsable ?q f"
    using builder_never_throws[OF h] by blast
  have "rating_f (filter_of spec) = None \<and> rating_f f = None
        \<and> title_f (filter_of spec) \<noteq> None \<and> title_f f \<noteq> None"
    using b(3,4) u t unfolding omits_unparsable_def by blast
  then show ?thesis
    using h b(1,2) by blast
qed

subsection \<open>Page and limit\<close>

text \<open>
  Claim C5, as the code has it. \<open>parseInt\<close> reads page and limit, and nothing raises.
  Each is a number other than \<open>NaN\<close> and zero, integer-valued or infinite. Page is 1 and
  limit is 10 when the parameter is absent or does not begin (after white space and a
  sign) with a digit. For a text of white space, an optional sign, decimal digits and a
  rest that does not continue them (the digits not opening a \<open>0x\<close> prefix), the value is
  the default when the digits write zero, and otherwise the double nearest to the
  integer written, negated after a minus sign; that double is the integer itself below
  \<open>2^53\<close> and \<open>Infinity\<close> from \<open>2^1024\<close> on. The value is above zero whenever the text
  does not begin with a minus sign.
\<close>

theorem page_and_limit_defaults:
  assumes "string_query q"
    and "list_all is_space ws" "sg = [] \<or> sg = ''+'' \<or> sg = ''-''"
    and "ds \<noteq> []" "list_all is_digit ds" "rest = [] \<or> \<not> is_digit (hd rest)"
    and "take 2 (ds @ rest) \<noteq> ''0x''" "take 2 (ds @ rest) \<noteq> ''0X''"
  shows "\<exists>spec. getRecipes_build q = Inr spec
    \<and> page spec \<noteq> NaN \<and> page spec \<noteq> Num 0 \<and> whole_number (page spec)
    \<and> limit spec \<noteq> NaN \<and> limit spec \<noteq> Num 0 \<and> whole_number (limit spec)
    \<and> (q ''page'' = None \<or> \<not> begins_with_digit (to_string_opt (q ''page'')) \<longrightarrow> page spec = Num 1)
    \<and> (q ''limit'' = None \<or> \<not> begins_with_digit (to_string_opt (q ''limit'')) \<longrightarrow> limit spec = Num 10)
    \<and> (q ''page'' = Some (QStr (ws @ sg @ ds @ rest)) \<longrightarrow>
         page spec = (if written_nat ds = 0 then Num 1
                      else signed sg (to_double (of_nat (written_nat ds)))))
    \<and> (q ''limit'' = Some (QStr (ws @ sg @ ds @ rest)) \<longrightarrow>
         limit spec = (if written_nat ds = 0 then Num 10
                       else signed sg (to_double (of_nat (written_nat ds)))))
    \<and> (written_nat ds < 2 ^ 53 \<longrightarrow>
         to_double (of_nat (written_nat ds)) = Num (of_nat (written_nat ds)))
    \<and> (2 ^ 1024 \<le> written_nat ds \<longrightarrow> to_double (of_nat (written_nat ds)) = PosInfinity)
    \<and> (\<not> leading_minus (to_string_opt (q ''page'')) \<longrightarrow> positive_number (page spec))
    \<and> (\<not> leading_minus (to_string_opt (q ''limit'')) \<longrightarrow> positive_number (limit spec))"
proof -
  let ?p = "to_string_opt (q ''page'')" and ?l = "to_string_opt (q ''limit'')"
  let ?n = "written_nat ds"
  obtain sb f where b: "getRecipes_build q =
             Inr \<lparr>page = or_default (parseInt ?p) (Num 1),
                  limit = or_default (parseInt ?l) (Num 10), sortBy = sb, filter_of = f\<rparr>"
    using getRecipes_build_string[OF assms(1)] by blast
  let ?spec = "\<lparr>page = or_default (parseInt ?p) (Num 1),
                limit = or_default (parseInt ?l) (Num 10), sortBy = sb, filter_of = f\<rparr>"
  have u: "\<not> begins_with_digit ''undefined''"
    by (simp add: begins_with_digit_def is_space_def is_digit_def)
  have w1: "whole_number (Num 1)" "whole_number (Num 10)"
    by (simp_all add: whole_number_def)
  have pos1: "positive_number (Num 1)" "positive_number (Num 10)"
    by (simp_all add: positive_number_def)
  have p1: "or_default (parseInt ?p) (Num 1) \<noteq> NaN" "or_default (parseInt ?p) (Num 1) \<noteq> Num 0"
    "whole_number (or_default (parseInt ?p) (Num 1))"
    using or_default_whole[OF w1(1)] by (simp_all add: or_default_not_NaN or_default_not_zero)
  have l1: "or_default (parseInt ?l) (Num 10) \<noteq> NaN" "or_default (parseInt ?l) (Num 10) \<noteq> Num 0"
    "whole_number (or_default (parseInt ?l) (Num 10))"
    using or_default_whole[OF w1(2)] by (simp_all add: or_default_not_NaN or_default_not_zero)
  have p2: "or_default (parseInt ?p) (Num 1) = Num 1"
    if "q ''page'' = None \<or> \<not> begins_with_digit ?p"
    using that u parseInt_no_digit[of ?p] by (auto simp: or_default_def to_string_opt_def)
  have l2: "or_default (parseInt ?l) (Num 10) = Num 10"
    if "q ''limit'' = None \<or> \<not> begins_with_digit ?l"
    using that u parseInt_no_digit[of ?l] by (auto simp: or_default_def to_string_opt_def)
  have v: "parseInt (ws @ sg @ ds @ rest) = signed sg (to_double (of_nat ?n))"
    by (rule parseInt_decimal[OF assms(2-8)])
  have z: "signed sg (to_double (of_nat ?n)) = NaN \<or> signed sg (to_double (of_nat ?n)) = Num 0
           \<longleftrightarrow> ?n = 0"
  proof -
    consider "to_double (of_nat ?n) = PosInfinity" | j where "0 \<le> j" "to_double (of_nat ?n) = Num (of_int j)"
      using to_double_nat_cases[of ?n] by blast
    then show ?thesis
    proof cases
      case 1
      then have "?n \<noteq> 0" using to_double_zero by (metis jsnum.distinct(3) of_nat_0) 
      then show ?thesis using 1 by (simp add: signed_def negate_def)
    next
      case 2
      then show ?thesis using to_double_nat_zero_iff[of ?n]
        by (auto simp: signed_def negate_def)
    qed
  qed
  have p3: "or_default (parseInt ?p) (Num 1)
            = (if ?n = 0 then Num 1 else signed sg (to_double (of_nat ?n)))"
    if "q ''page'' = Some (QStr (ws @ sg @ ds @ rest))"
    using that v z by (auto simp: or_default_def to_string_opt_def)
  have l3: "or_default (parseInt ?l) (Num 10)
            = (if ?n = 0 then Num 10 else signed sg (to_double (of_nat ?n)))"
    if "q ''limit'' = Some (QStr (ws @ sg @ ds @ rest))"
    using that v z by (auto simp: or_default_def to_string_opt_def)
  have ex: "?n < 2 ^ 53 \<longrightarrow> to_double (of_nat ?n) = Num (of_nat ?n)"
    using to_double_nat_exact by blast
  have p4: "positive_number (or_default (parseInt ?p) (Num 1))" if "\<not> leading_minus ?p"
    using or_default_positive[OF that pos1(1)] .
  have l4: "positive_number (or_default (parseInt ?l) (Num 10))" if "\<not> leading_minus ?l"
    using or_default_positive[OF that pos1(2)] .
  show ?thesis
  proof (intro exI[of _ ?spec] conjI impI)
    show "getRecipes_build q = Inr ?spec" by (rule b)
  next
    show "page ?spec \<noteq> NaN" using p1(1) by simp
  next
    show "page ?spec \<noteq> Num 0" using p1(2) by simp
  next
    show "whole_number (page ?spec)" using p1(3) by simp
  next
    show "limit ?spec \<noteq> NaN" using l1(1) by simp
  next
    show "limit ?spec \<noteq> Num 0" using l1(2) by simp
  next
    show "whole_number (limit ?spec)" using l1(3) by simp
  next
    assume a: "q ''page'' = None \<or> \<not> begins_with_digit ?p"
    show "page ?spec = Num 1" using p2[OF a] by simp
  next
    assume a: "q ''limit'' = None \<or> \<not> begins_with_digit ?l"
    show "limit ?spec = Num 10" using l2[OF a] by simp
  next
    assume a: "q ''page'' = Some (QStr (ws @ sg @ ds @ rest))"
    show "page ?spec = (if ?n = 0 then Num 1 else signed sg (to_double (of_nat ?n)))"
      using p3[OF a] by simp
  next
    assume a: "q ''limit'' = Some (QStr (ws @ sg @ ds @ rest))"
    show "limit ?spec = (if ?n = 0 then Num 10 else signed sg (to_double (of_nat ?n)))"
      using l3[OF a] by simp
  next
    assume "?n < 2 ^ 53"
    then show "to_double (of_nat ?n) = Num (of_nat ?n)" using ex by simp
  next
    assume "2 ^ 1024 \<le> ?n"
    then have "(of_nat (2 ^ 1024) :: rat) \<le> of_nat ?n" using of_nat_le_iff by blast
    then have "(2 :: rat) ^ 1024 \<le> of_nat ?n" by simp
    then show "to_double (of_nat ?n) = PosInfinity" by (rule to_double_overflow)
  next
    assume a: "\<not> leading_minus ?p"
    show "positive_number (page ?spec)" using p4[OF a] by simp
  next
    assume a: "\<not> leading_minus ?l"
    show "positive_number (limit ?spec)" using l4[OF a] by simp
  qed
qed

text \<open>The theorem at \<open>{page: "2", limit: "abc"}\<close>, with the digits \<open>2\<close>.\<close>

theorem page_and_limit_defaults_witness:
  "string_query [''page'' \<mapsto> QStr ''2'', ''limit'' \<mapsto> QStr ''abc'']
   \<and> (\<exists>spec. getRecipes_build [''page'' \<mapsto> QStr ''2'', ''limit'' \<mapsto> QStr ''abc''] = Inr spec
        \<and> page spec = Num 2 \<and> limit spec = Num 10)"
proof -
  let ?q = "[''page'' \<mapsto> QStr ''2'', ''limit'' \<mapsto> QStr ''abc'']"
  have h: "string_query ?q"
    by (simp add: string_query_def parameters_def)
  have d: "\<not> begins_with_digit (to_string_opt (?q ''limit''))"
    by (simp add: begins_with_digit_def to_string_opt_def is_space_def is_digit_def)
  have n: "written_nat ''2'' = 2"
    by (simp add: written_nat_def digit_val_def)
  have p: "?q ''page'' = Some (QStr ([] @ [] @ ''2'' @ []))" by simp
  obtain spec where s: "getRecipes_build ?q = Inr spec" "limit spec = Num 10"
    "page spec = (if written_nat ''2'' = 0 then Num 1
                  else signed [] (to_double (of_nat (written_nat ''2''))))"
    "to_double (of_nat (written_nat ''2'')) = Num (of_nat (written_nat ''2''))"
    using page_and_limit_defaults[of ?q "[]" "[]" "''2''" "[]"] h d p
    by (auto simp: is_digit_def n)
  have "page spec = Num 2"
    using s(3,4) by (simp add: n signed_def)
  then show ?thesis using h s(1,2) by blast
qed

text \<open>
  Claim C5 as stated fails: \<open>page=-3\<close> and \<open>limit=-5\<close> are parsed to the negative
  integers \<open>-3\<close> and \<open>-5\<close>, which are neither positive nor the defaults.
\<close>

theorem negative_page_counterexample:
  "getRecipes_build [''page'' \<mapsto> QStr ''-3'', ''limit'' \<mapsto> QStr ''-5'']
     = Inr \<lparr>page = Num (- 3), limit = Num (- 5), sortBy = [(''rating'', - 1)],
            filter_of = empty_filter\<rparr>
   \<and> \<not> positive_integer (Num (- 3)) \<and> \<not> positive_integer (Num (- 5))"
  by (simp add: getRecipes_build_def getRecipes_filter_def build_sort_def bind_def Let_def
      parseInt_def to_string_opt_def or_default_def to_double_numeral to_double_zero
      to_double_one negate_def digits_val_def digit_val_def is_space_def
      is_digit_def positive_integer_def)

subsection \<open>Sort\<close>

text \<open>
  Claim C6, as the code has it. For a field and a direction without colon, the field not
  being \<open>__proto__\<close>: the text \<open>field:direction\<close> (also when more follows after a second
  colon) sorts by that field, ascending exactly when the direction is \<open>asc\<close>; a non-empty
  text without colon sorts by it descending; an absent or empty parameter sorts by
  rating descending.
\<close>

theorem sort_field_and_direction:
  assumes "string_query q"
    and "CHR '':'' \<notin> set field" "CHR '':'' \<notin> set dir" "field \<noteq> ''__proto__''"
  shows "\<exists>spec. getRecipes_build q = Inr spec
    \<and> (q ''sort'' = Some (QStr (field @ '':'' @ dir))
         \<longrightarrow> sortBy spec = [(field, if dir = ''asc'' then 1 else - 1)])
    \<and> (q ''sort'' = Some (QStr (field @ '':'' @ dir @ '':'' @ rest))
         \<longrightarrow> sortBy spec = [(field, if dir = ''asc'' then 1 else - 1)])
    \<and> (q ''sort'' = Some (QStr field) \<and> field \<noteq> [] \<longrightarrow> sortBy spec = [(field, - 1)])
    \<and> (q ''sort'' = None \<or> q ''sort'' = Some (QStr []) \<longrightarrow> sortBy spec = [(''rating'', - 1)])"
proof -
  obtain sb f where sb: "build_sort q = Inr sb"
    and b: "getRecipes_build q =
             Inr \<lparr>page = or_default (parseInt (to_string_opt (q ''page''))) (Num 1),
                  limit = or_default (parseInt (to_string_opt (q ''limit''))) (Num 10),
                  sortBy = sb, filter_of = f\<rparr>"
    using getRecipes_build_string[OF assms(1)] by blast
  let ?spec = "\<lparr>page = or_default (parseInt (to_string_opt (q ''page''))) (Num 1),
                  limit = or_default (parseInt (to_string_opt (q ''limit''))) (Num 10),
                  sortBy = sb, filter_of = f\<rparr>"
  have c1: "q ''sort'' = Some (QStr (field @ '':'' @ dir))
            \<Longrightarrow> sb = [(field, if dir = ''asc'' then 1 else - 1)]"
    using build_sort_field_dir[OF assms(2,3), of q "[]"] sb assms(4)
    by (simp add: set_sort_def)
  have c2: "q ''sort'' = Some (QStr (field @ '':'' @ dir @ '':'' @ rest))
            \<Longrightarrow> sb = [(field, if dir = ''asc'' then 1 else - 1)]"
    using build_sort_field_dir[OF assms(2,3), of q "'':'' @ rest"] sb assms(4)
    by (simp add: set_sort_def)
  have c3: "q ''sort'' = Some (QStr field) \<and> field \<noteq> [] \<Longrightarrow> sb = [(field, - 1)]"
    using build_sort_field_only[OF assms(2), of q] sb assms(4)
    by (simp add: set_sort_def)
  have c4: "q ''sort'' = None \<or> q ''sort'' = Some (QStr []) \<Longrightarrow> sb = [(''rating'', - 1)]"
    using build_sort_default[of q] sb by simp
  show ?thesis
  proof (intro exI[of _ ?spec] conjI impI)
    show "getRecipes_build q = Inr ?spec" by (rule b)
  next
    assume a: "q ''sort'' = Some (QStr (field @ '':'' @ dir))"
    from c1[OF a] show "sortBy ?spec = [(field, if dir = ''asc'' then 1 else - 1)]" by simp
  next
    assume a: "q ''sort'' = Some (QStr (field @ '':'' @ dir @ '':'' @ rest))"
    from c2[OF a] show "sortBy ?spec = [(field, if dir = ''asc'' then 1 else - 1)]" by simp
  next
    assume a: "q ''sort'' = Some (QStr field) \<and> field \<noteq> []"
    from c3[OF a] show "sortBy ?spec = [(field, - 1)]" by simp
  next
    assume a: "q ''sort'' = None \<or> q ''sort'' = Some (QStr [])"
    from c4[OF a] show "sortBy ?spec = [(''rating'', - 1)]" by simp
  qed
qed

text \<open>The theorem at \<open>{sort: "title:asc"}\<close>.\<close>

theorem sort_field_and_direction_witness:
  "string_query [''sort'' \<mapsto> QStr ''title:asc'']
   \<and> (\<exists>spec. getRecipes_build [''sort'' \<mapsto> QStr ''title:asc''] = Inr spec
        \<and> sortBy spec = [(''title'', 1)])"
proof -
  have h: "string_query [''sort'' \<mapsto> QStr ''title:asc'']"
    by (simp add: string_query_def parameters_def)
  show ?thesis
    using h sort_field_and_direction[OF h, of "''title''" "''asc''" "[]"]
    by auto
qed

text \<open>
  Claim C6 as stated fails: a sort parameter that is present and empty is not split into
  an empty field with descending direction; the sort is rating descending.
\<close>

theorem empty_sort_counterexample:
  "getRecipes_build [''sort'' \<mapsto> QStr []]
     = Inr \<lparr>page = Num 1, limit = Num 10, sortBy = [(''rating'', - 1)], filter_of = empty_filter\<rparr>
   \<and> [(''rating'', - 1 :: int)] \<noteq> [([], - 1)]"
  by (simp add: getRecipes_build_def getRecipes_filter_def build_sort_def bind_def Let_def
      parseInt_def to_string_opt_def or_default_def to_double_numeral to_double_zero
      to_double_one negate_def is_space_def is_digit_def)

subsection \<open>The builder is a function of the recognised parameters\<close>

text \<open>
  The query \<open>getRecipes\<close> builds depends on the values of the eight recognised parameters
  and on nothing else in the mapping.
\<close>

lemma build_reads_parameters_only:
  assumes "\<forall>k\<in>set parameters. q k = q' k"
  shows "getRecipes_build q = getRecipes_build q'"
proof -
  have e: "q ''page'' = q' ''page''" "q ''limit'' = q' ''limit''" "q ''sort'' = q' ''sort''"
    "q ''title'' = q' ''title''" "q ''cuisine'' = q' ''cuisine''" "q ''rating'' = q' ''rating''"
    "q ''total_time'' = q' ''total_time''" "q ''calories'' = q' ''calories''"
    using assms by (simp_all add: parameters_def)
  show ?thesis
    by (simp only: getRecipes_build_def getRecipes_filter_def build_sort_def e)
qed

subsection \<open>The two endpoints build the same filter\<close>

lemma filters_same: "getRecipes_filter q = searchRecipes_filter q"
  by (simp only: getRecipes_filter_def searchRecipes_filter_def)

text \<open>
  Claim C10. For a mapping that holds only the parameters title, cuisine, rating,
  total_time and calories, the filter inside the query of \<open>getRecipes\<close> equals the filter
  of \<open>searchRecipes\<close>; when one raises, so does the other.
\<close>

theorem filters_agree:
  assumes "dom q \<subseteq> set filter_parameters"
  shows "map_sum id filter_of (getRecipes_build q) = searchRecipes_filter q"
proof -
  have "''sort'' \<notin> dom q"
    using assms by (auto simp: filter_parameters_def)
  then have "q ''sort'' = None" by blast
  then have s: "build_sort q = Inr [(''rating'', - 1)]"
    by (simp add: build_sort_def)
  show ?thesis
    by (cases "getRecipes_filter q")
       (simp_all add: getRecipes_build_def Let_def s bind_def filters_same[symmetric])
qed

text \<open>The theorem at \<open>{title: "pie", rating: ">=4.5"}\<close>.\<close>

theorem filters_agree_witness:
  "dom [''title'' \<mapsto> QStr ''pie'', ''rating'' \<mapsto> QStr ''>=4.5''] \<subseteq> set filter_parameters
   \<and> map_sum id filter_of (getRecipes_build [''title'' \<mapsto> QStr ''pie'', ''rating'' \<mapsto> QStr ''>=4.5''])
       = searchRecipes_filter [''title'' \<mapsto> QStr ''pie'', ''rating'' \<mapsto> QStr ''>=4.5'']"
proof -
  have h: "dom [''title'' \<mapsto> QStr ''pie'', ''rating'' \<mapsto> QStr ''>=4.5''] \<subseteq> set filter_parameters"
    by (simp add: filter_parameters_def)
  show ?thesis
    using h filters_agree[OF h] by blast
qed

subsection \<open>The title filter\<close>

text \<open>
  Claim C7 at the title \<open>"."\<close>: both endpoints hand the text to the store as the pattern of
  a regular expression, unescaped, with the option \<open>i\<close>. The store reads \<open>.\<close> as any
  character, so a record titled \<open>abc\<close> matches although \<open>.\<close> does not occur in its title.
\<close>

theorem title_pattern_unescaped:
  "getRecipes_filter [''title'' \<mapsto> QStr ''.'']
     = Inr (empty_filter\<lparr>title_f := Some (Regex (QStr ''.'') ''i'')\<rparr>)
   \<and> searchRecipes_filter [''title'' \<mapsto> QStr ''.'']
     = Inr (empty_filter\<lparr>title_f := Some (Regex (QStr ''.'') ''i'')\<rparr>)"
  by (simp add: getRecipes_filter_def searchRecipes_filter_def bind_def Let_def
      parseNumericFilter_def empty_filter_def)

subsection \<open>Numeric fields of a stored recipe\<close>

lemma bind_eq_Inr: "bind m k = Inr y \<longleftrightarrow> (\<exists>x. m = Inr x \<and> k x = Inr y)"
  by (cases m) (simp_all add: bind_def)

lemma addRecipe_field_result:
  assumes "addRecipe_field conv f p = Inr p'"
  shows "number_or_null (p' f) \<and> (\<forall>g. g \<noteq> f \<longrightarrow> p' g = p g)"
proof (cases "p f = Some (JStr ''NaN'') \<or> p f = Some (JStr [])")
  case True
  then have "p' = p(f \<mapsto> JNull)"
    using assms by (auto simp: addRecipe_field_def)
  then show ?thesis by (simp add: number_or_null_def)
next
  case False
  then obtain n where n: "to_number conv (p f) = Inr n"
    and r0: "(if n = NaN then Inr (p(f \<mapsto> JNull))
             else if p f \<noteq> None \<and> p f \<noteq> Some JNull
                  then bind (to_number conv (p f)) (\<lambda>m. Inr (p(f \<mapsto> JNum m)))
                  else Inr p) = Inr p'"
    using assms by (auto simp: addRecipe_field_def bind_eq_Inr)
  have r: "(if n = NaN then Inr (p(f \<mapsto> JNull))
             else if p f \<noteq> None \<and> p f \<noteq> Some JNull then Inr (p(f \<mapsto> JNum n))
             else Inr p) = Inr p'"
    using r0 unfolding n bind_def by (auto split: if_splits)
  show ?thesis
  proof (cases "n = NaN")
    case True
    then show ?thesis using r by (auto simp: number_or_null_def)
  next
    case nn: False
    show ?thesis
    proof (cases "p f \<noteq> None \<and> p f \<noteq> Some JNull")
      case True
      then show ?thesis using r nn by (auto simp: number_or_null_def)
    next
      case False
      then have "p f = None \<or> p f = Some JNull" by blast
      then have "p f = Some JNull"
        using n nn by (auto simp: to_number_def)
      then show ?thesis using r nn False by (auto simp: number_or_null_def)
    qed
  qed
qed

lemma loadRecipes_field_result:
  assumes "loadRecipes_field conv f p = Inr p'"
  shows "number_or_null (p' f) \<and> (\<forall>g. g \<noteq> f \<longrightarrow> p' g = p g)"
proof (cases "p f = Some (JStr ''NaN'') \<or> p f = None \<or> p f = Some JNull")
  case True
  then have "p' = p(f \<mapsto> JNull)"
    using assms by (auto simp: loadRecipes_field_def)
  then show ?thesis by (simp add: number_or_null_def)
next
  case False
  then obtain n where n: "to_number conv (p f) = Inr n"
    and r0: "(if n = NaN then Inr (p(f \<mapsto> JNull))
              else bind (to_number conv (p f)) (\<lambda>m. Inr (p(f \<mapsto> JNum m)))) = Inr p'"
    using assms by (auto simp: loadRecipes_field_def bind_eq_Inr)
  have r: "(if n = NaN then Inr (p(f \<mapsto> JNull)) else Inr (p(f \<mapsto> JNum n))) = Inr p'"
    using r0 unfolding n bind_def by (simp split: if_splits)
  then show ?thesis
    by (cases "n = NaN") (auto simp: number_or_null_def)
qed

lemma for_each_result:
  assumes step: "\<And>f p p'. step f p = Inr p' \<Longrightarrow> P (p' f) \<and> (\<forall>g. g \<noteq> f \<longrightarrow> p' g = p g)"
    and "for_each step fs p = Inr p'"
  shows "(\<forall>f\<in>set fs. P (p' f)) \<and> (\<forall>g. g \<notin> set fs \<longrightarrow> p' g = p g)"
  using assms(2)
proof (induction fs arbitrary: p)
  case Nil
  then show ?case by simp
next
  case (Cons f fs)
  then obtain p1 where p1: "step f p = Inr p1" and rest: "for_each step fs p1 = Inr p'"
    by (auto simp: bind_eq_Inr)
  note ih = Cons.IH[OF rest]
  note s = step[OF p1]
  have "P (p' f)"
  proof (cases "f \<in> set fs")
    case True
    then show ?thesis using ih by blast
  next
    case False
    then have "p' f = p1 f" using ih by blast
    then show ?thesis using s by simp
  qed
  moreover have "\<forall>g. g \<notin> set (f # fs) \<longrightarrow> p' g = p g"
    using ih s by auto
  ultimately show ?case using ih by auto
qed

lemma map_result_elems:
  assumes "map_result g xs = Inr ys" "y \<in> set ys"
  shows "\<exists>x\<in>set xs. g x = Inr y"
  using assms
proof (induction xs arbitrary: ys)
  case Nil
  then show ?case by simp
next
  case (Cons x xs)
  then obtain z zs where z: "g x = Inr z" "map_result g xs = Inr zs" "ys = z # zs"
    by (auto simp: bind_eq_Inr)
  then show ?case using Cons by auto
qed

lemma to_number_total:
  assumes "\<forall>x. \<exists>n. conv x = Inr n"
  shows "\<exists>n. to_number conv v = Inr n"
proof (cases v)
  case None
  then show ?thesis by (simp add: to_number_def)
next
  case (Some x)
  then show ?thesis using assms by (cases x) (simp_all add: to_number_def)
qed

lemma addRecipe_field_total:
  assumes "\<forall>x. \<exists>n. conv x = Inr n"
  shows "\<exists>p'. addRecipe_field conv f p = Inr p'"
proof -
  obtain n where n: "to_number conv (p f) = Inr n"
    using to_number_total[OF assms] by blast
  show ?thesis
    unfolding addRecipe_field_def n bind_def by simp
qed

lemma loadRecipes_field_total:
  assumes "\<forall>x. \<exists>n. conv x = Inr n"
  shows "\<exists>p'. loadRecipes_field conv f p = Inr p'"
proof -
  obtain n where n: "to_number conv (p f) = Inr n"
    using to_number_total[OF assms] by blast
  show ?thesis
    unfolding loadRecipes_field_def n bind_def by simp
qed

lemma for_each_total:
  assumes "\<And>f p. \<exists>p'. step f p = Inr p'"
  shows "\<exists>p'. for_each step fs p = Inr p'"
proof (induction fs arbitrary: p)
  case Nil
  then show ?case by simp
next
  case (Cons f fs)
  obtain p1 where "step f p = Inr p1" using assms by blast
  then show ?case using Cons[of p1] by (simp add: bind_def)
qed

lemma map_result_total:
  assumes "\<And>x. \<exists>y. g x = Inr y"
  shows "\<exists>ys. map_result g xs = Inr ys"
proof (induction xs)
  case Nil
  then show ?case by simp
next
  case (Cons x xs)
  obtain y where "g x = Inr y" using assms by blast
  then show ?case using Cons by (auto simp: bind_def)
qed

lemma normalisation_total:
  assumes "\<forall>x. \<exists>n. conv x = Inr n"
  shows "(\<exists>p'. addRecipe_payload conv payload = Inr p') \<and> (\<exists>cl. loadRecipes conv recipes = Inr cl)"
proof
  show "\<exists>p'. addRecipe_payload conv payload = Inr p'"
    unfolding addRecipe_payload_def
    using for_each_total[of "addRecipe_field conv"] addRecipe_field_total[OF assms] by blast
next
  have "\<And>r. \<exists>r'. for_each (loadRecipes_field conv) numeric_fields r = Inr r'"
    using for_each_total[of "loadRecipes_field conv"] loadRecipes_field_total[OF assms] by blast
  then show "\<exists>cl. loadRecipes conv recipes = Inr cl"
    unfolding loadRecipes_def
    using map_result_total[of "for_each (loadRecipes_field conv) numeric_fields"] by blast
qed

text \<open>
  Claim C8. For each of rating, prep_time, cook_time and total_time, whatever the
  conversion \<open>Number\<close> does on strings, arrays and objects: in the payload \<open>addRecipe\<close>
  hands to the model, and in every record \<open>loadRecipes\<close> returns, the field is \<open>null\<close> or
  a number other than \<open>NaN\<close>; it is never a string and never absent. Both
  normalisations return whenever the conversion raises nothing.
\<close>

theorem numeric_fields_number_or_null:
  assumes "f \<in> set numeric_fields"
  shows "(addRecipe_payload conv payload = Inr payload' \<longrightarrow> number_or_null (payload' f))
       \<and> (loadRecipes conv recipes = Inr cleaned \<longrightarrow> (\<forall>r\<in>set cleaned. number_or_null (r f)))
       \<and> ((\<forall>x. \<exists>n. conv x = Inr n) \<longrightarrow>
            (\<exists>p'. addRecipe_payload conv payload = Inr p') \<and> (\<exists>cl. loadRecipes conv recipes = Inr cl))"
proof -
  have a: "number_or_null (payload' f)" if "addRecipe_payload conv payload = Inr payload'"
    using that
      for_each_result[of "addRecipe_field conv" number_or_null numeric_fields payload payload']
      addRecipe_field_result assms
    unfolding addRecipe_payload_def by blast
  have l: "number_or_null (r f)" if l: "loadRecipes conv recipes = Inr cleaned" and r: "r \<in> set cleaned" for r
  proof -
    obtain x where "for_each (loadRecipes_field conv) numeric_fields x = Inr r"
      using map_result_elems[OF l[unfolded loadRecipes_def] r] by blast
    then show ?thesis
      using for_each_result[of "loadRecipes_field conv" number_or_null numeric_fields x r]
        loadRecipes_field_result assms
      by blast
  qed
  show ?thesis
    using a l normalisation_total[of conv payload recipes] by blast
qed

text \<open>
  The theorem at rating, for a payload with rating \<open>"NaN"\<close> and a record with rating
  \<open>"four"\<close>, under a conversion that reads no string as a number.
\<close>

theorem numeric_fields_number_or_null_witness:
  "''rating'' \<in> set numeric_fields
   \<and> (\<exists>p'. addRecipe_payload (\<lambda>x. Inr NaN)
               [''rating'' \<mapsto> JStr ''NaN'', ''prep_time'' \<mapsto> JNum (Num 5), ''title'' \<mapsto> JStr ''Pie''] = Inr p'
            \<and> number_or_null (p' ''rating''))
   \<and> (\<exists>r. loadRecipes (\<lambda>x. Inr NaN)
               [[''rating'' \<mapsto> JStr ''four'', ''prep_time'' \<mapsto> JNum (Num 5)]] = Inr [r]
            \<and> number_or_null (r ''rating''))"
proof -
  let ?c = "\<lambda>x::json. Inr NaN :: error + jsnum"
  let ?p = "[''rating'' \<mapsto> JStr ''NaN'', ''prep_time'' \<mapsto> JNum (Num 5), ''title'' \<mapsto> JStr ''Pie'']"
  let ?r = "[''rating'' \<mapsto> JStr ''four'', ''prep_time'' \<mapsto> JNum (Num 5)]"
  have h: "''rating'' \<in> set numeric_fields"
    by (simp add: numeric_fields_def)
  have a: "\<exists>p'. addRecipe_payload ?c ?p = Inr p'"
    by (simp add: addRecipe_payload_def numeric_fields_def addRecipe_field_def bind_def to_number_def)
  have l: "\<exists>r. loadRecipes ?c [?r] = Inr [r]"
    by (simp add: loadRecipes_def numeric_fields_def loadRecipes_field_def bind_def to_number_def)
  from a obtain p' where p': "addRecipe_payload ?c ?p = Inr p'" by blast
  from l obtain r where r: "loadRecipes ?c [?r] = Inr [r]" by blast
  have "number_or_null (p' ''rating'')"
    using numeric_fields_number_or_null[OF h, of ?c ?p p' "[?r]" "[r]"] p' by blast
  moreover have "number_or_null (r ''rating'')"
    using numeric_fields_number_or_null[OF h, of ?c ?p p' "[?r]" "[r]"] r by simp
  ultimately show ?thesis
    using h p' r by blast
qed

subsection \<open>The calories filter at the store\<close>

lemma split_str_first: "\<exists>ps. split_str '' '' 0 s = first_token s # ps"
proof (induction s)
  case Nil
  then show ?case by (simp add: first_token_def)
next
  case (Cons c cs)
  then obtain ps where ps: "split_str '' '' 0 cs = first_token cs # ps" by blast
  show ?case
  proof (cases "c = CHR '' ''")
    case True
    then show ?thesis by (simp add: first_token_def)
  next
    case False
    then show ?thesis using ps by (simp add: first_token_def)
  qed
qed

lemma eval_calories_expression:
  assumes "doc ''nutrients.calories'' = BStr s"
  shows "eval_expr td cf doc (calories_expression (Pred operator val))
         = (case td (trim (first_token s)) of
              None \<Rightarrow> Inl ConversionFailure
            | Some n \<Rightarrow> Inr (BBool (cf operator (BNum n) (BNum val))))"
proof -
  obtain ps where ps: "split_str '' '' 0 s = first_token s # ps"
    using split_str_first by blast
  have sp: "eval_expr td cf doc (Split (FieldPath ''nutrients.calories'') (StrLit '' ''))
            = Inr (BArr (BStr (first_token s) # map BStr ps))"
    by (simp add: assms bind_def ps)
  have el: "eval_expr td cf doc (ArrayElemAt (Split (FieldPath ''nutrients.calories'') (StrLit '' ''))
                                             (NumLit (Num 0)))
            = Inr (BStr (first_token s))"
    by (simp add: sp bind_def array_elem_at_def del: eval_expr.simps(4))
  have tr: "eval_expr td cf doc (Trim (ArrayElemAt (Split (FieldPath ''nutrients.calories'') (StrLit '' ''))
                                             (NumLit (Num 0))))
            = Inr (BStr (trim (first_token s)))"
    by (simp add: el bind_def del: eval_expr.simps(4,5))
  have td: "eval_expr td cf doc (ToDouble (Trim (ArrayElemAt (Split (FieldPath ''nutrients.calories'') (StrLit '' ''))
                                             (NumLit (Num 0)))))
            = (case td (trim (first_token s)) of None \<Rightarrow> Inl ConversionFailure | Some n \<Rightarrow> Inr (BNum n))"
    by (simp add: tr bind_def del: eval_expr.simps(4,5,6))
  show ?thesis
    by (simp add: calories_expression_def td bind_def del: eval_expr.simps(4,5,6,7)
        split: option.splits)
qed

lemma find_expr_raises:
  assumes "doc \<in> set docs" "eval_expr td cf doc e = Inl err"
  shows "\<exists>err'. find_expr td cf e docs = Inl err'"
  using assms(1)
proof (induction docs)
  case Nil
  then show ?case by simp
next
  case (Cons d ds)
  show ?case
  proof (cases "eval_expr td cf d e")
    case (Inl a)
    then show ?thesis by (simp add: bind_def)
  next
    case (Inr v)
    then have "d \<noteq> doc" using assms(2) by auto
    then have "doc \<in> set ds" using Cons.prems by simp
    then obtain err' where "find_expr td cf e ds = Inl err'" using Cons.IH by blast
    then show ?thesis using Inr by (simp add: bind_def)
  qed
qed

text \<open>
  Claim C3 fails on the code. Both endpoints build the same expression from a parsed
  calories parameter: \<open>$toDouble\<close> of \<open>$trim\<close> of element 0 of \<open>$split\<close> of
  \<open>nutrients.calories\<close> on a single space, compared with the threshold by the parsed
  operator. For a record whose first token the store cannot read as a number, the
  evaluation of that expression is a conversion failure, and so is the lookup over any
  collection that holds such a record: the record is not left out, the query fails.
\<close>

theorem calories_filter_raises_on_unconvertible:
  assumes "string_query q"
    and "getRecipes_filter q = Inr f" "expr_f f = Some e"
    and "doc ''nutrients.calories'' = BStr s" "td (trim (first_token s)) = None"
    and "doc \<in> set docs"
  shows "searchRecipes_filter q = Inr f
       \<and> eval_expr td cf doc e = Inl ConversionFailure
       \<and> (\<exists>err. find_expr td cf e docs = Inl err)"
proof -
  note s = string_query_fields[OF assms(1)]
  obtain r1 where r1: "parseNumericFilter (q ''rating'') = Inr r1"
    using parseNumericFilter_string[OF s(6)] by blast
  obtain r2 where r2: "parseNumericFilter (q ''total_time'') = Inr r2"
    using parseNumericFilter_string[OF s(7)] by blast
  obtain r3 where r3: "parseNumericFilter (q ''calories'') = Inr r3"
    using parseNumericFilter_string[OF s(8)] by blast
  have "expr_f f = map_option calories_expression r3"
    using getRecipes_filter_parsed[OF r1 r2 r3] assms(2) by auto
  then obtain p where "e = calories_expression p"
    using assms(3) by (cases r3) auto
  then obtain operator val where e: "e = calories_expression (Pred operator val)"
    by (cases p) auto
  have ev: "eval_expr td cf doc e = Inl ConversionFailure"
    unfolding e using eval_calories_expression[of doc s td cf operator val] assms(4,5) by simp
  have "searchRecipes_filter q = Inr f"
    using assms(2) by (simp add: filters_same)
  then show ?thesis
    using ev find_expr_raises[OF assms(6) ev] by blast
qed

text \<open>
  The theorem at \<open>{calories: "<=400"}\<close> over the records \<open>"389 kcal"\<close> and \<open>"abc kcal"\<close>, with
  a store that reads unsigned decimal literals.
\<close>

theorem calories_filter_raises_on_unconvertible_witness:
  "string_query [''calories'' \<mapsto> QStr ''<=400'']
   \<and> getRecipes_filter [''calories'' \<mapsto> QStr ''<=400'']
       = Inr (empty_filter\<lparr>expr_f := Some (calories_expression (Pred Lte (Num 400)))\<rparr>)
   \<and> decimal_reader (trim (first_token ''abc kcal'')) = None
   \<and> eval_expr decimal_reader number_order (doc_with_calories ''abc kcal'')
        (calories_expression (Pred Lte (Num 400))) = Inl ConversionFailure
   \<and> (\<exists>err. find_expr decimal_reader number_order (calories_expression (Pred Lte (Num 400)))
         [doc_with_calories ''389 kcal'', doc_with_calories ''abc kcal''] = Inl err)"
proof -
  let ?q = "[''calories'' \<mapsto> QStr ''<=400'']"
  let ?e = "calories_expression (Pred Lte (Num 400))"
  let ?f = "empty_filter\<lparr>expr_f := Some ?e\<rparr>"
  let ?doc = "doc_with_calories ''abc kcal''"
  let ?ok = "doc_with_calories ''389 kcal''"
  have h: "string_query ?q"
    by (simp add: string_query_def parameters_def)
  have g: "getRecipes_filter ?q = Inr ?f"
    by (simp add: getRecipes_filter_def bind_def Let_def parseNumericFilter_def empty_filter_def
        calories_expression_def regex_match_def operators_def match_tail_def match_number_def
        parseFloat_def digits_val_def digit_val_def is_space_def is_digit_def to_double_numeral)
  have x: "expr_f ?f = Some ?e" by simp
  have d: "?doc ''nutrients.calories'' = BStr ''abc kcal''"
    by (simp add: doc_with_calories_def)
  have t: "decimal_reader (trim (first_token ''abc kcal'')) = None"
    by (simp add: decimal_reader_def trim_def first_token_def is_trim_char_def match_number_def
        is_digit_def)
  have m: "?doc \<in> set [?ok, ?doc]" by simp
  show ?thesis
    using h g x d t m
      calories_filter_raises_on_unconvertible[of ?q ?f ?e ?doc "''abc kcal''" decimal_reader
        "[?ok, ?doc]" number_order]
    by blast
qed

end
